theory Spec2Isabelle
  imports Complex_Main
begin

section \<open>JavaScript strings and numbers\<close>

text \<open>
  Strings are lists of characters. Indices are JavaScript numbers; the ones used here are
  integers, \<open>-1\<close> being the "not found" result of \<open>lastIndexOf\<close>.
\<close>

definition occurs_at :: "string \<Rightarrow> string \<Rightarrow> nat \<Rightarrow> bool" where
  \<comment> \<open>\<open>pat\<close> occurs in \<open>s\<close> starting at index \<open>i\<close>\<close>
  "occurs_at s pat i = (take (length pat) (drop i s) = pat)"

definition js_includes :: "string \<Rightarrow> string \<Rightarrow> bool" where
  \<comment> \<open>\<open>s.includes(pat)\<close>\<close>
  "js_includes s pat = list_ex (occurs_at s pat) [0..<Suc (length s)]"

definition js_lastIndexOf :: "string \<Rightarrow> string \<Rightarrow> int" where
  \<comment> \<open>\<open>s.lastIndexOf(pat)\<close>: the greatest index where \<open>pat\<close> occurs, or \<open>-1\<close>\<close>
  "js_lastIndexOf s pat =
     (case filter (occurs_at s pat) (rev [0..<Suc (length s)]) of
        [] \<Rightarrow> - 1
      | i # _ \<Rightarrow> int i)"

definition clamp_index :: "string \<Rightarrow> int \<Rightarrow> nat" where
  \<comment> \<open>\<open>substring\<close> clamps each index into \<open>0 .. s.length\<close>\<close>
  "clamp_index s i = nat (min (max i 0) (int (length s)))"

definition js_substring :: "string \<Rightarrow> int \<Rightarrow> int \<Rightarrow> string" where
  \<comment> \<open>\<open>s.substring(start, end)\<close>: indices are clamped, and swapped when \<open>start > end\<close>\<close>
  "js_substring s start end =
     (let a = clamp_index s start; b = clamp_index s end;
          lo = min a b; hi = max a b
      in take (hi - lo) (drop lo s))"

definition js_substring_from :: "string \<Rightarrow> int \<Rightarrow> string" where
  \<comment> \<open>\<open>s.substring(start)\<close>: the end defaults to \<open>s.length\<close>\<close>
  "js_substring_from s start = js_substring s start (int (length s))"

definition digit_char :: "nat \<Rightarrow> char" where
  "digit_char d = ''0123456789'' ! d"

fun string_of_nat :: "nat \<Rightarrow> string" where
  "string_of_nat n =
     (if n < 10 then [digit_char n]
      else string_of_nat (n div 10) @ [digit_char (n mod 10)])"

declare string_of_nat.simps [simp del]

definition number_to_string :: "int \<Rightarrow> string" where
  \<comment> \<open>the string a JavaScript integer number concatenates as\<close>
  "number_to_string i =
     (if i < 0 then CHR ''-'' # string_of_nat (nat (- i)) else string_of_nat (nat i))"

definition digit_value :: "char \<Rightarrow> nat" where
  "digit_value c = of_char c - 48"

definition decimal_value :: "string \<Rightarrow> nat" where
  \<comment> \<open>the number a string of decimal digits denotes\<close>
  "decimal_value s = foldl (\<lambda>a c. 10 * a + digit_value c) 0 s"


section \<open>The print plugin: title, height check\<close>

text \<open>
  \<^verbatim>\<open>
  function setupTitle() {
      var url = window.location.pathname;
      var filename = url.substring(url.lastIndexOf('/')+1);
      var basename = filename.substring(0, url.lastIndexOf("."));
      document.title = basename + "pdf";
  }
  \<close>
  The index of the last dot is taken in \<open>url\<close> and applied to \<open>filename\<close>.
\<close>

record location =
  pathname :: string   \<comment> \<open>\<open>window.location.pathname\<close>\<close>
  search :: string     \<comment> \<open>\<open>window.location.search\<close>\<close>

definition derived_title :: "string \<Rightarrow> string" where
  "derived_title url =
     (let filename = js_substring_from url (js_lastIndexOf url ''/'' + 1);
          basename = js_substring filename 0 (js_lastIndexOf url ''.'')
      in basename @ ''pdf'')"

text \<open>The values the host framework hands to the height check, and the console.\<close>

record indices =
  idx_h :: int
  idx_v :: int

record slide_view =
  config_height :: int         \<comment> \<open>\<open>Reveal.getConfig().height\<close>\<close>
  client_height :: int         \<comment> \<open>\<open>Reveal.getCurrentSlide().clientHeight\<close>\<close>
  current_indices :: indices   \<comment> \<open>\<open>Reveal.getIndices()\<close>\<close>
  console :: "string list"     \<comment> \<open>the lines written by \<open>console.error\<close>, oldest first\<close>

datatype str_or_num = Str string | Num int

definition concat_value :: "str_or_num \<Rightarrow> string" where
  \<comment> \<open>how the value reads when concatenated to a string\<close>
  "concat_value v = (case v of Str s \<Rightarrow> s | Num i \<Rightarrow> number_to_string i)"

definition slideNumber :: "indices \<Rightarrow> str_or_num" where
  "slideNumber idx =
     (if idx_v idx > 0
      then Str (''(h:'' @ number_to_string (idx_h idx + 1) @ '', v:''
                @ number_to_string (idx_v idx + 1) @ '')'')
      else Num (idx_h idx + 1))"

definition height_message :: "slide_view \<Rightarrow> string" where
  "height_message w =
     ''slide '' @ concat_value (slideNumber (current_indices w)) @ '' is ''
       @ number_to_string (client_height w - config_height w) @ ''px too high''"

definition checkHeight :: "slide_view \<Rightarrow> slide_view" where
  "checkHeight w =
     (let configHeight = config_height w; slideHeight = client_height w
      in if slideHeight > configHeight
         then w\<lparr>console := console w @ [height_message w]\<rparr>
         else w)"


section \<open>The math plugin: the script loader\<close>

text \<open>
  \<open>loadScript\<close> appends a script element to the head and installs two handlers on it:
  \<open>onload\<close> is \<open>finish\<close>, and \<open>onreadystatechange\<close> calls \<open>finish\<close> when the
  element's \<open>readyState\<close> is \<open>loaded\<close>.
  \<^verbatim>\<open>
  var finish = function() {
      if( typeof callback === 'function' ) {
          callback.call();
          callback = null;
      }
  }
  \<close>
  The callback is a function of the rest of the program state. Its call either returns
  or throws; an exception leaves \<open>finish\<close> before the assignment, so the callback stays
  set, and the browser, having reported the exception, goes on delivering notifications.
  \<open>invocations\<close> counts the calls.
\<close>

datatype 'w completion =
    Returns 'w   \<comment> \<open>the call returns, with the program in this state\<close>
  | Throws 'w    \<comment> \<open>the call throws, with the program in this state\<close>

record script_element =
  script_type :: string
  script_id :: string
  script_src :: string

record 'w loader =
  callback :: "('w \<Rightarrow> 'w completion) option"
    \<comment> \<open>\<open>None\<close>: not a function (\<open>null\<close> after a call that returned)\<close>
  head_children :: "script_element list"   \<comment> \<open>what \<open>loadScript\<close> appended to the head\<close>
  program :: 'w
  invocations :: nat

datatype notification =
    Load                       \<comment> \<open>the script's load event\<close>
  | ReadyStateChange string    \<comment> \<open>a ready-state change, with \<open>this.readyState\<close>\<close>

definition finish :: "'w loader \<Rightarrow> 'w loader" where
  "finish l =
     (case callback l of
        Some f \<Rightarrow>
          (case f (program l) of
             Returns w \<Rightarrow>
               l\<lparr>program := w, invocations := Suc (invocations l), callback := None\<rparr>
           | Throws w \<Rightarrow>
               l\<lparr>program := w, invocations := Suc (invocations l)\<rparr>)
      | None \<Rightarrow> l)"

definition loadScript ::
  "string \<Rightarrow> ('w \<Rightarrow> 'w completion) option \<Rightarrow> 'w \<Rightarrow> 'w loader" where
  "loadScript url cb w =
     \<lparr>callback = cb,
      head_children = [\<lparr>script_type = ''text/javascript'', script_id = ''MathJax-script'',
                        script_src = url\<rparr>],
      program = w, invocations = 0\<rparr>"

fun notify :: "notification \<Rightarrow> 'w loader \<Rightarrow> 'w loader" where
  "notify Load l = finish l"
| "notify (ReadyStateChange rs) l = (if rs = ''loaded'' then finish l else l)"

fun notify_all :: "notification list \<Rightarrow> 'w loader \<Rightarrow> 'w loader" where
  "notify_all [] l = l"
| "notify_all (n # ns) l = notify_all ns (notify n l)"

fun completes :: "notification \<Rightarrow> bool" where
  \<comment> \<open>the notifications that reach \<open>finish\<close>\<close>
  "completes Load = True"
| "completes (ReadyStateChange rs) = (rs = ''loaded'')"


section \<open>The document\<close>

text \<open>
  A document is a tree of text and element nodes. An element has a namespace kind, a tag
  name (lower case for the elements an HTML parser creates), its attributes in order, and
  its child nodes. A script's reference to a node is the node's path from the root: the
  child indices to follow.
\<close>

datatype kind = HTML | SVG

type_synonym attributes = "(string \<times> string) list"

datatype node = Text string | Element kind string attributes "node list"

type_synonym path = "nat list"

fun getAttribute :: "attributes \<Rightarrow> string \<Rightarrow> string option" where
  "getAttribute [] name = None"
| "getAttribute ((k, v) # as) name = (if k = name then Some v else getAttribute as name)"

definition hasAttribute :: "attributes \<Rightarrow> string \<Rightarrow> bool" where
  "hasAttribute as name = (getAttribute as name \<noteq> None)"

fun setAttribute :: "string \<Rightarrow> string \<Rightarrow> attributes \<Rightarrow> attributes" where
  "setAttribute name v [] = [(name, v)]"
| "setAttribute name v ((k, x) # as) =
     (if k = name then (k, v) # as else (k, x) # setAttribute name v as)"

definition removeAttribute :: "string \<Rightarrow> attributes \<Rightarrow> attributes" where
  "removeAttribute name as = filter (\<lambda>(k, v). k \<noteq> name) as"

fun node_tag :: "node \<Rightarrow> string option" where
  "node_tag (Text s) = None"
| "node_tag (Element k t as cs) = Some t"

fun node_attrs :: "node \<Rightarrow> attributes" where
  "node_attrs (Text s) = []"
| "node_attrs (Element k t as cs) = as"

fun childNodes :: "node \<Rightarrow> node list" where
  "childNodes (Text s) = []"
| "childNodes (Element k t as cs) = cs"

fun map_attrs :: "(attributes \<Rightarrow> attributes) \<Rightarrow> node \<Rightarrow> node" where
  \<comment> \<open>an update of an element's attributes\<close>
  "map_attrs f (Text s) = Text s"
| "map_attrs f (Element k t as cs) = Element k t (f as) cs"

fun node_at :: "node \<Rightarrow> path \<Rightarrow> node option" where
  "node_at n [] = Some n"
| "node_at (Text s) (i # p) = None"
| "node_at (Element k t as cs) (i # p) = (if i < length cs then node_at (cs ! i) p else None)"

fun update_at :: "path \<Rightarrow> (node \<Rightarrow> node) \<Rightarrow> node \<Rightarrow> node" where
  "update_at [] f n = f n"
| "update_at (i # p) f (Text s) = Text s"
| "update_at (i # p) f (Element k t as cs) =
     (if i < length cs then Element k t as (cs[i := update_at p f (cs ! i)])
      else Element k t as cs)"

fun subtree_nodes :: "node \<Rightarrow> (path \<times> node) list"
  and child_nodes :: "nat \<Rightarrow> node list \<Rightarrow> (path \<times> node) list" where
  \<comment> \<open>a node and its descendants in tree order, each with its path\<close>
  "subtree_nodes (Text s) = [([], Text s)]"
| "subtree_nodes (Element k t as cs) = ([], Element k t as cs) # child_nodes 0 cs"
| "child_nodes i [] = []"
| "child_nodes i (c # cs) =
     map (\<lambda>(p, n). (i # p, n)) (subtree_nodes c) @ child_nodes (Suc i) cs"

definition descendants :: "node \<Rightarrow> (path \<times> node) list" where
  "descendants n = child_nodes 0 (childNodes n)"

definition is_tag :: "string \<Rightarrow> node \<Rightarrow> bool" where
  "is_tag t n = (node_tag n = Some t)"

definition getElementsByTagName :: "node \<Rightarrow> string \<Rightarrow> path list" where
  \<comment> \<open>\<open>document.getElementsByTagName(t)\<close>, in tree order\<close>
  "getElementsByTagName d t = map fst (filter (\<lambda>(p, n). is_tag t n) (subtree_nodes d))"

definition has_id :: "string \<Rightarrow> node \<Rightarrow> bool" where
  "has_id l n = (getAttribute (node_attrs n) ''id'' = Some l)"

definition getElementById :: "node \<Rightarrow> string \<Rightarrow> path option" where
  \<comment> \<open>the first element in tree order with that id; an empty id matches nothing\<close>
  "getElementById d l =
     (if l = [] then None
      else map_option fst (find (\<lambda>(p, n). has_id l n) (subtree_nodes d)))"

definition tag_at :: "node \<Rightarrow> string \<Rightarrow> path \<Rightarrow> bool" where
  "tag_at d t q = (case node_at d q of Some n \<Rightarrow> is_tag t n | None \<Rightarrow> False)"

definition inclusive_ancestors :: "path \<Rightarrow> path list" where
  \<comment> \<open>the node itself, its parent, and so on up to the root\<close>
  "inclusive_ancestors p = map (\<lambda>k. take k p) (rev [0..<Suc (length p)])"

definition closest :: "node \<Rightarrow> path \<Rightarrow> string \<Rightarrow> path option" where
  \<comment> \<open>\<open>e.closest(t)\<close> for a type selector: the nearest inclusive ancestor with that tag\<close>
  "closest d p t = find (tag_at d t) (inclusive_ancestors p)"

definition element_id :: "node \<Rightarrow> path \<Rightarrow> string" where
  \<comment> \<open>\<open>e.id\<close>: the id attribute, or the empty string\<close>
  "element_id d q =
     (case node_at d q of
        Some n \<Rightarrow> (case getAttribute (node_attrs n) ''id'' of Some v \<Rightarrow> v | None \<Rightarrow> [])
      | None \<Rightarrow> [])"


section \<open>The math plugin: link fixup\<close>

text \<open>
  The \<open>href\<close> of an HTML anchor is a string, which has no \<open>baseVal\<close> property; the
  \<open>href\<close> of an SVG anchor is an animated string whose \<open>baseVal\<close> reflects the
  element's \<open>href\<close> attribute (empty when there is none).
\<close>

fun href_baseVal :: "node \<Rightarrow> string option" where
  "href_baseVal (Element SVG t as cs) =
     Some (case getAttribute as ''href'' of Some v \<Rightarrow> v | None \<Rightarrow> [])"
| "href_baseVal (Element HTML t as cs) = None"
| "href_baseVal (Text s) = None"

definition set_baseVal :: "string \<Rightarrow> node \<Rightarrow> node" where
  \<comment> \<open>\<open>a.href.baseVal = v\<close>\<close>
  "set_baseVal v = map_attrs (setAttribute ''href'' v)"

text \<open>
  \<open>decodeURIComponent\<close> belongs to the platform; the link fixup takes it as a parameter
  \<open>dec\<close>, \<open>None\<close> being the \<open>URIError\<close> it throws on a malformed escape. The exception
  leaves \<open>fixLinks\<close>, with the document as rewritten so far.

  The loop runs over \<open>document.getElementsByTagName("a")\<close>. That collection is live, but
  the loop body only writes \<open>href\<close> attributes, so the collection is the same at every
  step (lemma \<open>fixLink_anchors\<close> below) and the loop is a recursion over the list read at
  the start.
\<close>

datatype outcome = Completed | URIError

definition fixLink :: "(string \<Rightarrow> string option) \<Rightarrow> node \<Rightarrow> path \<Rightarrow> node option" where
  \<comment> \<open>the loop body for the anchor \<open>a\<close>; \<open>None\<close> when the decoding throws\<close>
  "fixLink dec d a =
     (case node_at d a of
        None \<Rightarrow> Some d
      | Some n \<Rightarrow>
          (case href_baseVal n of
             None \<Rightarrow> Some d
           | Some label \<Rightarrow>
               if label \<noteq> [] \<and> js_includes label ''#mjx-eqn''
               then (case dec (js_substring_from label 1) of
                       None \<Rightarrow> None
                     | Some label' \<Rightarrow>
                         (case getElementById d label' of
                            None \<Rightarrow> Some d
                          | Some eqn \<Rightarrow>
                              (case closest d eqn ''section'' of
                                 None \<Rightarrow> Some d
                               | Some s \<Rightarrow>
                                   Some (update_at a (set_baseVal (''#'' @ element_id d s)) d))))
               else Some d))"

fun fixLinks_loop :: "(string \<Rightarrow> string option) \<Rightarrow> node \<Rightarrow> path list \<Rightarrow> node \<times> outcome" where
  "fixLinks_loop dec d [] = (d, Completed)"
| "fixLinks_loop dec d (a # as) =
     (case fixLink dec d a of
        None \<Rightarrow> (d, URIError)
      | Some d' \<Rightarrow> fixLinks_loop dec d' as)"

definition fixLinks :: "(string \<Rightarrow> string option) \<Rightarrow> node \<Rightarrow> node \<times> outcome" where
  "fixLinks dec d = fixLinks_loop dec d (getElementsByTagName d ''a'')"

text \<open>
  The platform's decoder on the strings of this model: a character other than \<open>%\<close> is
  copied, \<open>%\<close> with two hexadecimal digits below \<open>80\<close> is that character, and a \<open>%\<close>
  without two hexadecimal digits throws. An escape from \<open>80\<close> on starts a UTF-8 sequence,
  whose code point has no character in this model; it is reported as an error here, so
  the model is exact on strings whose escapes are ASCII.
\<close>

definition hex_digit :: "char \<Rightarrow> nat option" where
  "hex_digit c =
     (let n = (of_char c :: nat)
      in if 48 \<le> n \<and> n \<le> 57 then Some (n - 48)
         else if 65 \<le> n \<and> n \<le> 70 then Some (n - 55)
         else if 97 \<le> n \<and> n \<le> 102 then Some (n - 87)
         else None)"

fun decodeURIComponent :: "string \<Rightarrow> string option" where
  "decodeURIComponent [] = Some []"
| "decodeURIComponent (c # cs) =
     (if c \<noteq> CHR ''%'' then map_option ((#) c) (decodeURIComponent cs)
      else (case cs of
              h1 # h2 # rest \<Rightarrow>
                (case (hex_digit h1, hex_digit h2) of
                   (Some a, Some b) \<Rightarrow>
                     if 16 * a + b < 128
                     then map_option ((#) (char_of (16 * a + b))) (decodeURIComponent rest)
                     else None
                 | _ \<Rightarrow> None)
            | _ \<Rightarrow> None))"


subsection \<open>Auxiliary notions for the link fixup\<close>

text \<open>
  Notions used to state and prove the properties of the link fixup. A function of a node
  is shallow when it does not look at the node's children. \<open>slide_link d l\<close> is the
  fragment the fixup writes for the decoded label \<open>l\<close>, and \<open>link_action\<close> is the
  decision of the loop body as a function of the anchor's \<open>baseVal\<close>.
  \<open>erase_href\<close> forgets the \<open>href\<close> attribute of every SVG anchor, and \<open>own_part\<close>
  forgets a node's children.
\<close>

definition shallow :: "(node \<Rightarrow> 'b) \<Rightarrow> bool" where
  "shallow h = (\<forall>k t as cs cs'. h (Element k t as cs) = h (Element k t as cs'))"

definition id_attr :: "node \<Rightarrow> string option" where
  "id_attr n = getAttribute (node_attrs n) ''id''"

definition slide_link :: "node \<Rightarrow> string \<Rightarrow> string option" where
  "slide_link d l =
     (case getElementById d l of
        None \<Rightarrow> None
      | Some eqn \<Rightarrow>
          (case closest d eqn ''section'' of
             None \<Rightarrow> None
           | Some s \<Rightarrow> Some (''#'' @ element_id d s)))"

datatype action = Keep | Rewrite string | Throw

definition link_action ::
  "(string \<Rightarrow> string option) \<Rightarrow> (string \<Rightarrow> string option) \<Rightarrow> string option \<Rightarrow> action" where
  "link_action dec sl b =
     (case b of
        None \<Rightarrow> Keep
      | Some label \<Rightarrow>
          if label \<noteq> [] \<and> js_includes label ''#mjx-eqn''
          then (case dec (js_substring_from label 1) of
                  None \<Rightarrow> Throw
                | Some l \<Rightarrow> (case sl l of None \<Rightarrow> Keep | Some v \<Rightarrow> Rewrite v))
          else Keep)"

fun erase_href :: "node \<Rightarrow> node" where
  "erase_href (Text s) = Text s"
| "erase_href (Element k t as cs) =
     Element k t (if k = SVG \<and> t = ''a'' then removeAttribute ''href'' as else as)
       (map erase_href cs)"

fun own_part :: "node \<Rightarrow> node" where
  "own_part (Text s) = Text s"
| "own_part (Element k t as cs) = Element k t as []"

text \<open>
  Two documents. In the first, equation 3 sits on slide 7 and slide 8 refers to it from
  an SVG anchor and from an HTML anchor. In the second, a slide's own identifier is
  \<open>mjx-eqn%3A2\<close>, which decodes to the identifier of an equation on another slide.
\<close>

definition equation_doc :: node where
  "equation_doc =
     Element HTML ''html'' []
       [Element HTML ''section'' [(''id'', ''slide-7'')]
          [Element HTML ''p'' [] [Element SVG ''g'' [(''id'', ''mjx-eqn:3'')] []]],
        Element HTML ''section'' [(''id'', ''slide-8'')]
          [Element SVG ''a'' [(''href'', ''#mjx-eqn:3'')] [Text ''(3)''],
           Element HTML ''a'' [(''href'', ''#mjx-eqn:3'')] [Text ''(3)'']]]"

definition encoded_id_doc :: node where
  "encoded_id_doc =
     Element HTML ''html'' []
       [Element HTML ''section'' [(''id'', ''mjx-eqn%3A2'')]
          [Element SVG ''g'' [(''id'', ''mjx-eqn:1'')] []],
        Element HTML ''section'' [(''id'', ''slide-3'')]
          [Element SVG ''g'' [(''id'', ''mjx-eqn:2'')] []],
        Element HTML ''section'' [(''id'', ''slide-4'')]
          [Element SVG ''a'' [(''href'', ''#mjx-eqn:1'')] [Text ''(1)'']]]"

definition broken_escape_doc :: node where
  "broken_escape_doc =
     Element HTML ''html'' []
       [Element HTML ''section'' [(''id'', ''slide-7'')]
          [Element SVG ''g'' [(''id'', ''mjx-eqn:3'')] []],
        Element HTML ''section'' [(''id'', ''slide-8'')]
          [Element SVG ''a'' [(''href'', ''#mjx-eqn%'')] [Text ''(?)''],
           Element SVG ''a'' [(''href'', ''#mjx-eqn:3'')] [Text ''(3)'']]]"

text \<open>No section's identifier, written as a fragment, contains the equation marker.\<close>

definition marker_free_sections :: "node \<Rightarrow> bool" where
  "marker_free_sections d =
     list_all (\<lambda>s. \<not> js_includes (''#'' @ element_id d s) ''#mjx-eqn'')
       (getElementsByTagName d ''section'')"


section \<open>The print plugin: footers\<close>

text \<open>
  \<^verbatim>\<open>
  Reveal.getSlides().forEach( function( slide ) {
      var footers = slide.getElementsByClassName('footer');
      for (var i=0; i<footers.length; i++) {
          var footer = footers[i];
          var parent = footer.parentElement;
          if (parent.nodeName == "P") {
              slide.appendChild(footer);
              if (parent.childNodes.length == 0) {
                  parent.parentElement.removeChild(parent);
              }
          }
      }
  });
  \<close>
  A slide is given with its subtree; a footer is referred to by its path in the slide,
  and its parent by that path without its last index.
\<close>

definition ascii_upper :: "char \<Rightarrow> char" where
  "ascii_upper c =
     (let n = (of_char c :: nat) in if 97 \<le> n \<and> n \<le> 122 then char_of (n - 32) else c)"

fun nodeName :: "node \<Rightarrow> string" where
  \<comment> \<open>an HTML element's name reads in upper case\<close>
  "nodeName (Text s) = ''#text''"
| "nodeName (Element HTML t as cs) = map ascii_upper t"
| "nodeName (Element SVG t as cs) = t"

definition is_space :: "char \<Rightarrow> bool" where
  \<comment> \<open>ASCII whitespace: space, tab, line feed, form feed, carriage return\<close>
  "is_space c = ((of_char c :: nat) \<in> {32, 9, 10, 12, 13})"

fun tokens :: "string \<Rightarrow> string \<Rightarrow> string list" where
  \<comment> \<open>the whitespace-separated tokens of a class attribute; the first argument is the
     token being read\<close>
  "tokens cur [] = (if cur = [] then [] else [cur])"
| "tokens cur (c # cs) =
     (if is_space c then (if cur = [] then tokens [] cs else cur # tokens [] cs)
      else tokens (cur @ [c]) cs)"

definition has_class :: "string \<Rightarrow> node \<Rightarrow> bool" where
  "has_class c n =
     (case getAttribute (node_attrs n) ''class'' of
        Some v \<Rightarrow> c \<in> set (tokens [] v)
      | None \<Rightarrow> False)"

definition getElementsByClassName :: "node \<Rightarrow> string \<Rightarrow> path list" where
  \<comment> \<open>\<open>e.getElementsByClassName(c)\<close>: the descendants of \<open>e\<close> with class \<open>c\<close> (compared
     exactly, as in a standards-mode document), in tree order. The collection is live: it
     is computed from the tree as it is.\<close>
  "getElementsByClassName e c = map fst (filter (\<lambda>(p, n). has_class c n) (descendants e))"

fun remove_at :: "path \<Rightarrow> node \<Rightarrow> node" where
  \<comment> \<open>the tree without the node at the path (the root stays)\<close>
  "remove_at [] n = n"
| "remove_at (i # p) (Text s) = Text s"
| "remove_at (i # p) (Element k t as cs) =
     (if p = [] then Element k t as (take i cs @ drop (Suc i) cs)
      else if i < length cs then Element k t as (cs[i := remove_at p (cs ! i)])
      else Element k t as cs)"

fun append_child :: "node \<Rightarrow> node \<Rightarrow> node" where
  "append_child (Text s) x = Text s"
| "append_child (Element k t as cs) x = Element k t as (cs @ [x])"

definition appendChild :: "node \<Rightarrow> path \<Rightarrow> node" where
  \<comment> \<open>\<open>slide.appendChild(e)\<close> for a descendant \<open>e\<close> of the slide: \<open>e\<close> leaves its parent
     and becomes the last child of the slide. The slide itself (the empty path) is never
     the argument: the footers are descendants.\<close>
  "appendChild slide e =
     (case e of
        [] \<Rightarrow> slide
      | _ \<Rightarrow> (case node_at slide e of
                None \<Rightarrow> slide
              | Some x \<Rightarrow> append_child (remove_at e slide) x))"

definition nodeName_at :: "node \<Rightarrow> path \<Rightarrow> string" where
  "nodeName_at d p = (case node_at d p of Some n \<Rightarrow> nodeName n | None \<Rightarrow> [])"

definition childNodes_at :: "node \<Rightarrow> path \<Rightarrow> node list" where
  "childNodes_at d p = (case node_at d p of Some n \<Rightarrow> childNodes n | None \<Rightarrow> [])"

definition fixFooter :: "node \<Rightarrow> path \<Rightarrow> node" where
  \<comment> \<open>the loop body for one footer of the slide\<close>
  "fixFooter slide footer =
     (let parent = butlast footer
      in if nodeName_at slide parent = ''P''
         then (let slide' = appendChild slide footer
               in if length (childNodes_at slide' parent) = 0
                  then remove_at parent slide'
                  else slide')
         else slide)"

text \<open>
  The loop over the live collection ends: a step never adds a node, and the collection
  is shorter than the number of nodes of the slide.
\<close>

fun node_count :: "node \<Rightarrow> nat" where
  "node_count (Text s) = 1"
| "node_count (Element k t as cs) = Suc (sum_list (map node_count cs))"

lemma length_subtree_nodes:
  "length (subtree_nodes d) = node_count d"
  "length (child_nodes i cs) = sum_list (map node_count cs)"
  by (induction d and i cs rule: subtree_nodes_child_nodes.induct) simp_all

lemma sum_list_remove_nth:
  "i < length cs \<Longrightarrow>
   sum_list (map f (take i cs @ drop (Suc i) cs)) + f (cs ! i) = sum_list (map (f :: 'a \<Rightarrow> nat) cs)"
proof (induction cs arbitrary: i)
  case Nil
  then show ?case by simp
next
  case (Cons c cs)
  show ?case
  proof (cases i)
    case 0
    then show ?thesis by simp
  next
    case (Suc j)
    with Cons.prems have "j < length cs" by simp
    from Cons.IH [OF this] Suc show ?thesis by simp
  qed
qed

lemma sum_list_update_nat:
  "i < length cs \<Longrightarrow>
   sum_list (map f (cs[i := x])) + f (cs ! i) = sum_list (map (f :: 'a \<Rightarrow> nat) cs) + f x"
proof (induction cs arbitrary: i)
  case Nil
  then show ?case by simp
next
  case (Cons c cs)
  then show ?case by (cases i) simp_all
qed

lemma node_count_remove_at:
  "p \<noteq> [] \<Longrightarrow> node_at d p = Some x \<Longrightarrow> node_count (remove_at p d) + node_count x = node_count d"
proof (induction p arbitrary: d)
  case Nil
  then show ?case by simp
next
  case (Cons i p)
  show ?case
  proof (cases d)
    case (Text s)
    with Cons.prems show ?thesis by simp
  next
    case (Element k t as cs)
    with Cons.prems have i: "i < length cs" and at: "node_at (cs ! i) p = Some x"
      by (simp_all split: if_splits)
    show ?thesis
    proof (cases "p = []")
      case True
      with at have "cs ! i = x" by simp
      with sum_list_remove_nth [OF i, of node_count] Element True show ?thesis by simp
    next
      case False
      from Cons.IH [OF False at] sum_list_update_nat [OF i, of node_count "remove_at p (cs ! i)"]
        Element False i
      show ?thesis by simp
    qed
  qed
qed

lemma node_count_remove_at_le: "node_count (remove_at p d) \<le> node_count d"
proof (induction p arbitrary: d)
  case Nil
  then show ?case by simp
next
  case (Cons i p)
  show ?case
  proof (cases d)
    case (Text s)
    then show ?thesis by simp
  next
    case (Element k t as cs)
    show ?thesis
    proof (cases "i < length cs")
      case True
      show ?thesis
      proof (cases "p = []")
        case True
        with sum_list_remove_nth [OF \<open>i < length cs\<close>, of node_count] Element show ?thesis by simp
      next
        case False
        from Cons.IH [of "cs ! i"] sum_list_update_nat [OF True, of node_count "remove_at p (cs ! i)"]
          Element False True
        show ?thesis by simp
      qed
    next
      case False
      with Element show ?thesis by (cases "p = []") simp_all
    qed
  qed
qed

lemma remove_at_Element:
  "\<exists>cs'. remove_at p (Element k t as cs) = Element k t as cs'"
  by (cases p) simp_all

lemma node_count_appendChild: "node_count (appendChild slide e) = node_count slide"
proof (cases e)
  case Nil
  then show ?thesis by (simp add: appendChild_def)
next
  case (Cons i p)
  show ?thesis
  proof (cases "node_at slide e")
    case None
    with Cons show ?thesis by (simp add: appendChild_def)
  next
    case (Some x)
    with Cons obtain k t as cs where slide: "slide = Element k t as cs"
      by (cases slide) simp_all
    obtain cs' where r: "remove_at e slide = Element k t as cs'"
      using remove_at_Element slide by blast
    have "node_count (remove_at e slide) + node_count x = node_count slide"
      using Some Cons by (intro node_count_remove_at) simp_all
    with r Some Cons show ?thesis by (simp add: appendChild_def)
  qed
qed

lemma node_count_fixFooter: "node_count (fixFooter slide footer) \<le> node_count slide"
  by (simp add: fixFooter_def Let_def node_count_appendChild
      order_trans [OF node_count_remove_at_le])

lemma length_getElementsByClassName:
  "length (getElementsByClassName e c) < node_count e"
proof -
  have "length (getElementsByClassName e c) \<le> length (descendants e)"
    by (simp add: getElementsByClassName_def)
  also have "\<dots> < node_count e"
    by (cases e) (simp_all add: descendants_def length_subtree_nodes)
  finally show ?thesis .
qed

text \<open>
  \<^verbatim>\<open>for (var i=0; i<footers.length; i++)\<close> over the live collection: the
  collection is read again from the slide at every test and every access.
\<close>

function fixFooters_loop :: "node \<Rightarrow> nat \<Rightarrow> node" where
  "fixFooters_loop slide i =
     (let footers = getElementsByClassName slide ''footer''
      in if i < length footers
         then fixFooters_loop (fixFooter slide (footers ! i)) (Suc i)
         else slide)"
  by pat_completeness auto
termination
proof (relation "measure (\<lambda>(slide, i). node_count slide - i)")
  show "wf (measure (\<lambda>(slide, i). node_count slide - i))" by simp
next
  fix slide :: node and i :: nat and footers
  assume "footers = getElementsByClassName slide ''footer''" and "i < length footers"
  then have "i < node_count slide"
    using length_getElementsByClassName [of slide "''footer''"] by simp
  with node_count_fixFooter [of slide "footers ! i"]
  show "((fixFooter slide (footers ! i), Suc i), (slide, i))
          \<in> measure (\<lambda>(slide, i). node_count slide - i)"
    by simp
qed

declare fixFooters_loop.simps [simp del]

definition fixFooters :: "node list \<Rightarrow> node list" where
  \<comment> \<open>the argument is \<open>Reveal.getSlides()\<close>, each slide with its subtree\<close>
  "fixFooters slides = map (\<lambda>slide. fixFooters_loop slide 0) slides"

text \<open>Three slides: one wrapped footer; two wrapped footers; a footer in a \<open>div\<close>
  and a footer that shares its paragraph with a text node.\<close>

definition one_footer_slide :: node where
  "one_footer_slide =
     Element HTML ''section'' []
       [Element HTML ''h1'' [] [Text ''Title''],
        Element HTML ''p'' [] [Element HTML ''span'' [(''class'', ''footer'')] [Text ''X'']]]"

definition two_footer_slide :: node where
  "two_footer_slide =
     Element HTML ''section'' []
       [Element HTML ''p'' [] [Element HTML ''span'' [(''class'', ''footer'')] [Text ''A'']],
        Element HTML ''p'' [] [Element HTML ''span'' [(''class'', ''footer'')] [Text ''B'']]]"




section \<open>Export mode\<close>

definition matches_at :: "string \<Rightarrow> string \<Rightarrow> nat \<Rightarrow> bool" where
  \<comment> \<open>the literal pattern matches at index \<open>i\<close> under the flag \<open>i\<close>, which compares
     characters by their canonical (upper case) form\<close>
  "matches_at pat s i = (map ascii_upper (take (length pat) (drop i s)) = map ascii_upper pat)"

definition regex_test_i :: "string \<Rightarrow> string \<Rightarrow> bool" where
  \<comment> \<open>\<open>/pat/gi.test(s)\<close> and \<open>!!s.match(/pat/gi)\<close> for a pattern of literal characters, on
     a fresh regular expression: some index matches\<close>
  "regex_test_i pat s = list_ex (matches_at pat s) [0..<Suc (length s)]"



section \<open>The print plugin: initialisation\<close>

datatype handler =
    CheckHeight | SetHeight | FixFooters
  | PrintAfter nat   \<comment> \<open>the listener that calls \<open>setTimeout(window.print, ms)\<close>\<close>

record page =
  page_location :: location
  webdriver :: bool                        \<comment> \<open>\<open>navigator.webdriver\<close>\<close>
  title :: string                          \<comment> \<open>\<open>document.title\<close>\<close>
  document :: node
  listeners :: "(string \<times> handler) list"   \<comment> \<open>\<open>Reveal.addEventListener\<close>, in order\<close>
  resolved :: bool                         \<comment> \<open>the promise returned by \<open>init\<close>\<close>

definition class_at :: "node \<Rightarrow> string \<Rightarrow> path \<Rightarrow> bool" where
  "class_at d c q = (case node_at d q of Some n \<Rightarrow> has_class c n | None \<Rightarrow> False)"

definition proper_ancestors :: "path \<Rightarrow> path list" where
  "proper_ancestors p = tl (inclusive_ancestors p)"

definition pdf_iframe :: "node \<Rightarrow> path \<Rightarrow> bool" where
  \<comment> \<open>the selector \<open>.reveal section iframe.pdf\<close>\<close>
  "pdf_iframe d p =
     (tag_at d ''iframe'' p \<and> class_at d ''pdf'' p
      \<and> list_ex (\<lambda>q. tag_at d ''section'' q \<and> list_ex (class_at d ''reveal'') (proper_ancestors q))
           (proper_ancestors p))"

definition querySelectorAll_pdf_iframes :: "node \<Rightarrow> path list" where
  "querySelectorAll_pdf_iframes d = filter (pdf_iframe d) (map fst (subtree_nodes d))"

definition activate_iframe :: "attributes \<Rightarrow> attributes" where
  "activate_iframe as =
     (case getAttribute as ''data-src'' of
        Some v \<Rightarrow> setAttribute ''src'' v as
      | None \<Rightarrow> as)"

definition setupIframes :: "node \<Rightarrow> node" where
  "setupIframes d =
     fold (\<lambda>e. update_at e (map_attrs activate_iframe)) (querySelectorAll_pdf_iframes d) d"

definition with_start_time :: "string \<Rightarrow> string" where
  "with_start_time src = (if js_includes src ''#t='' then src else src @ ''#t=0.5'')"

definition activate_video :: "attributes \<Rightarrow> attributes" where
  "activate_video as =
     removeAttribute ''controls''
       (case getAttribute as ''data-src'' of
          Some src \<Rightarrow> removeAttribute ''data-src'' (setAttribute ''src'' (with_start_time src) as)
        | None \<Rightarrow> as)"

definition tag_background_video :: "attributes \<Rightarrow> attributes" where
  "tag_background_video as =
     (case getAttribute as ''data-background-video'' of
        Some src \<Rightarrow>
          if js_includes src ''#t='' then as
          else setAttribute ''data-background-video'' (src @ ''#t=0.5'') as
      | None \<Rightarrow> as)"

definition setupVideos :: "node \<Rightarrow> node" where
  "setupVideos d =
     (let d1 = fold (\<lambda>vid. update_at vid (map_attrs activate_video))
                 (getElementsByTagName d ''video'') d
      in fold (\<lambda>e. update_at e (map_attrs tag_background_video))
           (getElementsByTagName d1 ''section'') d1)"

definition setupTitle :: "page \<Rightarrow> page" where
  "setupTitle p = p\<lparr>title := derived_title (pathname (page_location p))\<rparr>"

definition addEventListener :: "string \<Rightarrow> handler \<Rightarrow> page \<Rightarrow> page" where
  "addEventListener type h p = p\<lparr>listeners := listeners p @ [(type, h)]\<rparr>"

definition register_listeners :: "page \<Rightarrow> page" where
  "register_listeners p =
     addEventListener ''ready'' FixFooters
       (addEventListener ''ready'' SetHeight
          (addEventListener ''slidechanged'' CheckHeight p))"

definition export_fixups :: "page \<Rightarrow> page" where
  \<comment> \<open>\<open>setupIframes(); setupVideos(); setupTitle();\<close>\<close>
  "export_fixups p = setupTitle (p\<lparr>document := setupVideos (setupIframes (document p))\<rparr>)"

definition print_init :: "page \<Rightarrow> page" where
  "print_init p =
     (let p1 = register_listeners p;
          pdf = regex_test_i ''print-pdf'' (search (page_location p1));
          p2 = (if pdf
                then (let p3 = export_fixups p1
                      in if \<not> webdriver p3
                         then addEventListener ''pdf-ready'' (PrintAfter 1000) p3
                         else p3)
                else p1)
      in p2\<lparr>resolved := True\<rparr>)"

definition deck_page :: "string \<Rightarrow> bool \<Rightarrow> page" where
  "deck_page query driver =
     \<lparr>page_location = \<lparr>pathname = ''/lecture-3.html'', search = query\<rparr>,
      webdriver = driver, title = ''Lecture 3'',
      document =
        Element HTML ''div'' [(''class'', ''reveal'')]
          [Element HTML ''section'' [(''data-background-video'', ''bg.mp4'')]
             [Element HTML ''iframe'' [(''class'', ''pdf''), (''data-src'', ''demo.html'')] [],
              Element HTML ''video'' [(''data-src'', ''clip.mp4''), (''controls'', '''')] []]],
      listeners = [], resolved = False\<rparr>"


section \<open>The math plugin: configuration and initialisation\<close>

datatype jsval =
    JUndefined | JNull | JBool bool | JNumber rat | JString string
  | JArray "jsval list" | JObject "(string \<times> jsval) list"
  | JFunction string   \<comment> \<open>a function, by name\<close>

fun js_get :: "jsval \<Rightarrow> string \<Rightarrow> jsval" where
  \<comment> \<open>\<open>v.k\<close> for the keys used here: an object's own entry, else \<open>undefined\<close>\<close>
  "js_get (JObject ps) k = (case map_of ps k of Some v \<Rightarrow> v | None \<Rightarrow> JUndefined)"
| "js_get v k = JUndefined"

fun truthy :: "jsval \<Rightarrow> bool" where
  "truthy JUndefined = False"
| "truthy JNull = False"
| "truthy (JBool b) = b"
| "truthy (JNumber r) = (r \<noteq> 0)"
| "truthy (JString s) = (s \<noteq> [])"
| "truthy v = True"

definition js_or :: "jsval \<Rightarrow> jsval \<Rightarrow> jsval" where
  \<comment> \<open>\<open>a || b\<close>\<close>
  "js_or a b = (if truthy a then a else b)"

text \<open>
  \<^verbatim>\<open>
  function defaults( options, defaultOptions ) {
      for ( var i in defaultOptions ) {
          if ( !options.hasOwnProperty( i ) ) {
              options[i] = defaultOptions[i];
          }
      }
  }
  \<close>
  An object is the list of its entries, in order; a new entry goes to the end.
\<close>

definition hasOwnProperty :: "(string \<times> jsval) list \<Rightarrow> string \<Rightarrow> bool" where
  "hasOwnProperty obj i = (map_of obj i \<noteq> None)"

fun defaults_loop ::
  "(string \<times> jsval) list \<Rightarrow> (string \<times> jsval) list \<Rightarrow> string list \<Rightarrow> (string \<times> jsval) list" where
  "defaults_loop options defaultOptions [] = options"
| "defaults_loop options defaultOptions (i # keys) =
     defaults_loop
       (if \<not> hasOwnProperty options i
        then options @ [(i, js_get (JObject defaultOptions) i)]
        else options)
       defaultOptions keys"

definition defaults :: "(string \<times> jsval) list \<Rightarrow> (string \<times> jsval) list \<Rightarrow> (string \<times> jsval) list" where
  "defaults options defaultOptions = defaults_loop options defaultOptions (map fst defaultOptions)"

definition tex :: "string \<Rightarrow> string" where
  \<comment> \<open>a TeX string, written here with \<open>|\<close> for each backslash\<close>
  "tex s = map (\<lambda>c. if c = CHR ''|'' then CHR 0x5C else c) s"

definition macro :: "string \<Rightarrow> int \<Rightarrow> jsval" where
  "macro s n = JArray [JString (tex s), JNumber (of_int n)]"

definition mathjax_config :: jsval where
  \<comment> \<open>the object literal assigned to \<open>window.MathJax\<close>\<close>
  "mathjax_config =
     JObject
       [(''loader'', JObject [(''load'', JArray [JString ''[tex]/ams'']), (''typeset'', JBool False)]),
        (''startup'', JObject [(''ready'', JFunction ''ready'')]),
        (''svg'', JObject
           [(''scale'', JNumber (3 / 2)),
            (''minScale'', JNumber (1 / 2)),
            (''matchFontHeight'', JBool False),
            (''mtextInheritFont'', JBool True),
            (''merrorInheritFont'', JBool True),
            (''mathmlSpacing'', JBool False),
            (''skipAttributes'', JObject []),
            (''exFactor'', JNumber (1 / 2)),
            (''displayAlign'', JString ''center''),
            (''displayIndent'', JString ''0''),
            (''fontCache'', JString ''none''),
            (''localID'', JNull),
            (''internalSpeechTitles'', JBool True),
            (''titleID'', JNumber 0)]),
        (''tex'', JObject
           [(''tags'', JString ''ams''),
            (''packages'', JObject [(''[+]'', JArray [JString ''ams''])]),
            (''macros'', JObject
               [(''R'', JString (tex ''{{|mathrm{{I}|kern-.15em{R}}}}'')),
                (''laplace'', JString (tex ''{|Delta}'')),
                (''grad'', JString (tex ''{|nabla}'')),
                (''T'', JString (tex ''^{|mathsf{T}}'')),
                (''abs'', macro ''|left|lvert #1 |right|rvert'' 1),
                (''norm'', macro ''|left|Vert #1 |right|Vert'' 1),
                (''iprod'', macro ''|left|langle #1 |right|rangle'' 1),
                (''vec'', macro ''{|mathbf{#1}}'' 1),
                (''mat'', macro ''{|mathbf{#1}}'' 1),
                (''set'', macro ''|mathcal{#1}'' 1),
                (''func'', macro ''|mathrm{#1}'' 1),
                (''trans'', macro ''{#1}|mkern-1mu^{|mathsf{T}}'' 1),
                (''matrix'', macro ''|begin{bmatrix} #1 |end{bmatrix}'' 1),
                (''vector'', macro ''|begin{pmatrix} #1 |end{pmatrix}'' 1),
                (''of'', macro ''|mkern{-0mu}|left( #1 |right)'' 1),
                (''diff'', macro ''|frac{|mathrm{d}{#1}}{|mathrm{d}{#2}}'' 2),
                (''pdiff'', macro ''|frac{|partial {#1}}{|partial {#2}}'' 2)])])]"

definition script_url :: "jsval \<Rightarrow> string option" where
  \<comment> \<open>\<open>url = mathjax + config\<close>, from \<open>Reveal.getConfig().math\<close>. The sum of two strings is
     their concatenation; the conversion of other values by \<open>+\<close> is not modelled
     (\<open>None\<close>).\<close>
  "script_url math =
     (let options = js_or math (JObject []);
          mathjax = js_or (js_get options ''mathjax'')
                      (JString ''https://cdn.jsdelivr.net/npm/mathjax@3/es5/'');
          config = js_or (js_get options ''config'') (JString ''tex-svg.js'')
      in case (mathjax, config) of
           (JString a, JString b) \<Rightarrow> Some (a @ b)
         | _ \<Rightarrow> None)"

record engine =
  started :: bool          \<comment> \<open>\<open>MathJax.startup.defaultReady()\<close> has been called\<close>
  layouts :: nat           \<comment> \<open>calls of \<open>Reveal.layout()\<close>\<close>
  slides_doc :: node
  settled :: bool          \<comment> \<open>the promise returned by \<open>init\<close>\<close>
  messages :: "string list"

definition script_loaded :: "engine \<Rightarrow> engine completion" where
  \<comment> \<open>the callback given to \<open>loadScript\<close>: it starts the engine, whose promise then runs
     \<open>typeset_done\<close>; the engine's start is taken to return\<close>
  "script_loaded e = Returns (e\<lparr>started := True\<rparr>)"

definition typeset_done :: "(string \<Rightarrow> string option) \<Rightarrow> engine \<Rightarrow> engine" where
  \<comment> \<open>the continuation on \<open>MathJax.startup.promise\<close>; an exception of \<open>fixLinks\<close> leaves
     the promise of \<open>init\<close> unsettled\<close>
  "typeset_done dec e =
     (let e1 = e\<lparr>messages := messages e @ [''mathjax typeset done''], layouts := Suc (layouts e)\<rparr>;
          (d, out) = fixLinks dec (slides_doc e1);
          e2 = e1\<lparr>slides_doc := d\<rparr>
      in case out of Completed \<Rightarrow> e2\<lparr>settled := True\<rparr> | URIError \<Rightarrow> e2)"

record math_page =
  window_MathJax :: jsval                    \<comment> \<open>the configuration the engine reads\<close>
  script :: "engine loader option"           \<comment> \<open>the pending script load\<close>

definition math_init :: "jsval \<Rightarrow> string \<Rightarrow> engine \<Rightarrow> math_page" where
  \<comment> \<open>\<open>math\<close> is \<open>Reveal.getConfig().math\<close>, \<open>query\<close> is \<open>window.location.search\<close>\<close>
  "math_init math query e =
     (let printMode = regex_test_i ''print-pdf'' query
      in \<lparr>window_MathJax = mathjax_config,
          script = map_option (\<lambda>url. loadScript url (Some script_loaded) e) (script_url math)\<rparr>)"

definition idle_engine :: engine where
  "idle_engine =
     \<lparr>started = False, layouts = 0, slides_doc = equation_doc, settled = False, messages = []\<rparr>"

definition cached_fonts_options :: jsval where
  "cached_fonts_options =
     JObject [(''svg'', JObject [(''fontCache'', JString ''global'')]), (''config'', JString ''tex-chtml.js'')]"


section \<open>Properties of the title and of the height check\<close>

lemma lastIndexOf_slash_example: "js_lastIndexOf ''/deck/lecture-3.html'' ''/'' = 5"
  by code_simp

lemma lastIndexOf_dot_example: "js_lastIndexOf ''/deck/lecture-3.html'' ''.'' = 15"
  by code_simp

lemma derived_title_deck_lecture:
  "derived_title ''/deck/lecture-3.html'' = ''lecture-3.htmlpdf''"
  by code_simp

text \<open>
  C2. For the pathname \<open>/deck/lecture-3.html\<close> the claim expects the title
  \<open>lecture-3pdf\<close>. The file name is \<open>lecture-3.html\<close> (14 characters), but the dot is
  looked up in the whole path, at index 15, so \<open>substring(0, 15)\<close> keeps the whole file
  name and the title is \<open>lecture-3.htmlpdf\<close>.
\<close>

theorem setupTitle_deck_lecture:
  "title (setupTitle (p\<lparr>page_location := \<lparr>pathname = ''/deck/lecture-3.html'', search = q\<rparr>\<rparr>))
     = ''lecture-3.htmlpdf''
   \<and> title (setupTitle (p\<lparr>page_location := \<lparr>pathname = ''/deck/lecture-3.html'', search = q\<rparr>\<rparr>))
     \<noteq> ''lecture-3pdf''"
  by (simp add: setupTitle_def derived_title_deck_lecture)

lemma derived_title_root_file: "derived_title ''/lecture-3.html'' = ''lecture-3.pdf''"
  by code_simp

lemma checkHeight_console:
  "console (checkHeight w) =
     (if client_height w > config_height w then console w @ [height_message w] else console w)"
  by (simp add: checkHeight_def)

lemma checkHeight_frame:
  "config_height (checkHeight w) = config_height w"
  "client_height (checkHeight w) = client_height w"
  "current_indices (checkHeight w) = current_indices w"
  by (simp_all add: checkHeight_def)

lemma js_includes_append: "js_includes (a @ pat @ b) pat"
proof -
  have "occurs_at (a @ pat @ b) pat (length a)"
    by (simp add: occurs_at_def)
  moreover have "length a \<in> set [0..<Suc (length (a @ pat @ b))]"
    by simp
  ultimately show ?thesis
    unfolding js_includes_def list_ex_iff by blast
qed

lemma digit_value_digit_char: "d < 10 \<Longrightarrow> digit_value (digit_char d) = d"
proof -
  assume "d < 10"
  then have "d \<in> set [0..<10]" by simp
  moreover have "list_all (\<lambda>d. digit_value (digit_char d) = d) [0..<10]"
    by code_simp
  ultimately show ?thesis
    unfolding list_all_iff by blast
qed

lemma decimal_value_snoc: "decimal_value (s @ [c]) = 10 * decimal_value s + digit_value c"
  by (simp add: decimal_value_def)

lemma decimal_value_string_of_nat: "decimal_value (string_of_nat n) = n"
proof (induction n rule: string_of_nat.induct)
  case (1 n)
  show ?case
  proof (cases "n < 10")
    case True
    then have "string_of_nat n = [digit_char n]"
      by (subst string_of_nat.simps) simp
    with True show ?thesis
      by (simp add: decimal_value_def digit_value_digit_char)
  next
    case False
    then have "string_of_nat n = string_of_nat (n div 10) @ [digit_char (n mod 10)]"
      by (subst string_of_nat.simps) simp
    with "1.IH" [OF False] show ?thesis
      by (simp add: decimal_value_snoc digit_value_digit_char)
  qed
qed

text \<open>A number that is not negative reads as its decimal numeral.\<close>

lemma decimal_value_number_to_string:
  "0 \<le> i \<Longrightarrow> int (decimal_value (number_to_string i)) = i"
  by (simp add: number_to_string_def decimal_value_string_of_nat)

lemma slideNumber_text:
  "concat_value (slideNumber idx) =
     (if idx_v idx > 0
      then ''(h:'' @ number_to_string (idx_h idx + 1) @ '', v:''
             @ number_to_string (idx_v idx + 1) @ '')''
      else number_to_string (idx_h idx + 1))"
  by (simp add: slideNumber_def concat_value_def)

lemma height_message_text:
  "height_message w =
     ''slide ''
       @ (if idx_v (current_indices w) > 0
          then ''(h:'' @ number_to_string (idx_h (current_indices w) + 1) @ '', v:''
                 @ number_to_string (idx_v (current_indices w) + 1) @ '')''
          else number_to_string (idx_h (current_indices w) + 1))
       @ '' is '' @ number_to_string (client_height w - config_height w) @ ''px too high''"
  unfolding height_message_def slideNumber_text by (rule refl)

lemma height_message_includes_overflow:
  "js_includes (height_message w) (number_to_string (client_height w - config_height w))"
proof -
  have "height_message w =
      (''slide '' @ concat_value (slideNumber (current_indices w)) @ '' is '')
        @ number_to_string (client_height w - config_height w) @ ''px too high''"
    by (simp add: height_message_def)
  then show ?thesis
    by (metis js_includes_append)
qed

lemma height_message_includes_h:
  "js_includes (height_message w) (number_to_string (idx_h (current_indices w) + 1))"
proof (cases "idx_v (current_indices w) > 0")
  case True
  then have "height_message w =
      (''slide '' @ ''(h:'') @ number_to_string (idx_h (current_indices w) + 1)
        @ ('', v:'' @ number_to_string (idx_v (current_indices w) + 1) @ '')''
           @ '' is '' @ number_to_string (client_height w - config_height w) @ ''px too high'')"
    by (simp add: height_message_text)
  then show ?thesis
    by (metis js_includes_append)
next
  case False
  then have "height_message w =
      ''slide '' @ number_to_string (idx_h (current_indices w) + 1)
        @ ('' is '' @ number_to_string (client_height w - config_height w) @ ''px too high'')"
    by (simp add: height_message_text)
  then show ?thesis
    by (metis js_includes_append)
qed

lemma height_message_includes_v:
  assumes "idx_v (current_indices w) > 0"
  shows "js_includes (height_message w) (number_to_string (idx_v (current_indices w) + 1))"
proof -
  from assms have "height_message w =
      (''slide '' @ ''(h:'' @ number_to_string (idx_h (current_indices w) + 1) @ '', v:'')
        @ number_to_string (idx_v (current_indices w) + 1)
        @ ('')'' @ '' is '' @ number_to_string (client_height w - config_height w)
           @ ''px too high'')"
    by (simp add: height_message_text)
  then show ?thesis
    by (metis js_includes_append)
qed

lemma number_to_string_examples:
  "number_to_string 50 = ''50''"
  "number_to_string 1 = ''1''"
  "number_to_string 2 = ''2''"
  "number_to_string 3 = ''3''"
  by code_simp+

text \<open>
  C6. \<open>checkHeight\<close> writes one line to the console exactly when the current slide's
  height is greater than the configured height, and nothing otherwise; the rest of the
  state is unchanged. The line is \<open>slide N is Dpx too high\<close>, where \<open>D\<close> is the slide's
  height minus the configured one and \<open>N\<close> gives the slide's coordinates from
  \<open>Reveal.getIndices()\<close>: \<open>(h:H, v:V)\<close> with \<open>H\<close> the horizontal index plus one and \<open>V\<close>
  the vertical index plus one when the vertical index is positive, and \<open>H\<close> alone
  otherwise. The numbers are written as decimal numerals, which read back as the
  numbers. For heights 700 and 750 the overflow reads \<open>50\<close>.
\<close>

theorem checkHeight_diagnostic:
  "checkHeight w =
     (if client_height w > config_height w
      then w\<lparr>console := console w @ [height_message w]\<rparr> else w)
   \<and> (console (checkHeight w) \<noteq> console w \<longleftrightarrow> client_height w > config_height w)
   \<and> height_message w =
       ''slide ''
         @ (if idx_v (current_indices w) > 0
            then ''(h:'' @ number_to_string (idx_h (current_indices w) + 1) @ '', v:''
                   @ number_to_string (idx_v (current_indices w) + 1) @ '')''
            else number_to_string (idx_h (current_indices w) + 1))
         @ '' is '' @ number_to_string (client_height w - config_height w) @ ''px too high''
   \<and> js_includes (height_message w) (number_to_string (idx_h (current_indices w) + 1))
   \<and> (idx_v (current_indices w) > 0 \<longrightarrow>
        js_includes (height_message w) (number_to_string (idx_v (current_indices w) + 1)))
   \<and> js_includes (height_message w) (number_to_string (client_height w - config_height w))
   \<and> (0 \<le> idx_h (current_indices w) \<longrightarrow>
        int (decimal_value (number_to_string (idx_h (current_indices w) + 1)))
          = idx_h (current_indices w) + 1)
   \<and> (idx_v (current_indices w) > 0 \<longrightarrow>
        int (decimal_value (number_to_string (idx_v (current_indices w) + 1)))
          = idx_v (current_indices w) + 1)
   \<and> (client_height w > config_height w \<longrightarrow>
        int (decimal_value (number_to_string (client_height w - config_height w)))
          = client_height w - config_height w)
   \<and> (config_height w = 700 \<and> client_height w = 750
        \<longrightarrow> console (checkHeight w) = console w @ [height_message w]
            \<and> js_includes (height_message w) ''50'')"
proof -
  have a: "checkHeight w =
     (if client_height w > config_height w
      then w\<lparr>console := console w @ [height_message w]\<rparr> else w)"
    by (simp add: checkHeight_def)
  have b: "console (checkHeight w) \<noteq> console w \<longleftrightarrow> client_height w > config_height w"
    by (simp add: checkHeight_console)
  have v: "idx_v (current_indices w) > 0 \<longrightarrow>
        js_includes (height_message w) (number_to_string (idx_v (current_indices w) + 1))"
    by (simp add: height_message_includes_v)
  have dh: "0 \<le> idx_h (current_indices w) \<longrightarrow>
        int (decimal_value (number_to_string (idx_h (current_indices w) + 1)))
          = idx_h (current_indices w) + 1"
    by (simp add: decimal_value_number_to_string)
  have dv: "idx_v (current_indices w) > 0 \<longrightarrow>
        int (decimal_value (number_to_string (idx_v (current_indices w) + 1)))
          = idx_v (current_indices w) + 1"
    by (simp add: decimal_value_number_to_string)
  have dd: "client_height w > config_height w \<longrightarrow>
        int (decimal_value (number_to_string (client_height w - config_height w)))
          = client_height w - config_height w"
    by (simp add: decimal_value_number_to_string)
  have c: "config_height w = 700 \<and> client_height w = 750
        \<longrightarrow> console (checkHeight w) = console w @ [height_message w]
            \<and> js_includes (height_message w) ''50''"
  proof (intro impI conjI)
    assume h: "config_height w = 700 \<and> client_height w = 750"
    then show "console (checkHeight w) = console w @ [height_message w]"
      by (simp add: checkHeight_console)
    from h have "client_height w - config_height w = 50" by simp
    then show "js_includes (height_message w) ''50''"
      using height_message_includes_overflow [of w] number_to_string_examples(1) by simp
  qed
  from a b c v dh dv dd height_message_text [of w] height_message_includes_h [of w]
    height_message_includes_overflow [of w]
  show ?thesis by blast
qed

theorem checkHeight_diagnostic_witness:
  "checkHeight \<lparr>config_height = 700, client_height = 750,
       current_indices = \<lparr>idx_h = 2, idx_v = 1\<rparr>, console = []\<rparr>
     = \<lparr>config_height = 700, client_height = 750,
        current_indices = \<lparr>idx_h = 2, idx_v = 1\<rparr>,
        console = [''slide (h:3, v:2) is 50px too high'']\<rparr>
   \<and> js_includes ''slide (h:3, v:2) is 50px too high'' ''3''
   \<and> js_includes ''slide (h:3, v:2) is 50px too high'' ''2''
   \<and> js_includes ''slide (h:3, v:2) is 50px too high'' ''50''
   \<and> checkHeight \<lparr>config_height = 700, client_height = 750,
       current_indices = \<lparr>idx_h = 0, idx_v = 0\<rparr>, console = []\<rparr>
     = \<lparr>config_height = 700, client_height = 750,
        current_indices = \<lparr>idx_h = 0, idx_v = 0\<rparr>,
        console = [''slide 1 is 50px too high'']\<rparr>
   \<and> checkHeight \<lparr>config_height = 700, client_height = 700,
       current_indices = \<lparr>idx_h = 0, idx_v = 0\<rparr>, console = []\<rparr>
     = \<lparr>config_height = 700, client_height = 700,
        current_indices = \<lparr>idx_h = 0, idx_v = 0\<rparr>, console = []\<rparr>"
proof -
  let ?w = "\<lparr>config_height = 700, client_height = 750,
       current_indices = \<lparr>idx_h = 2, idx_v = 1\<rparr>, console = []\<rparr>"
  let ?u = "\<lparr>config_height = 700, client_height = 750,
       current_indices = \<lparr>idx_h = 0, idx_v = 0\<rparr>, console = []\<rparr>"
  let ?e = "\<lparr>config_height = 700, client_height = 700,
       current_indices = \<lparr>idx_h = 0, idx_v = 0\<rparr>, console = []\<rparr>"
  note W = checkHeight_diagnostic [of ?w]
  note U = checkHeight_diagnostic [of ?u]
  note E = checkHeight_diagnostic [of ?e]
  from W [THEN conjunct2, THEN conjunct2, THEN conjunct1]
  have mw: "height_message ?w = ''slide (h:3, v:2) is 50px too high''"
    by (simp add: number_to_string_examples)
  from U [THEN conjunct2, THEN conjunct2, THEN conjunct1]
  have mu: "height_message ?u = ''slide 1 is 50px too high''"
    by (simp add: number_to_string_examples)
  from W [THEN conjunct1] mw
  have cw: "checkHeight ?w = ?w\<lparr>console := [''slide (h:3, v:2) is 50px too high'']\<rparr>"
    by simp
  from U [THEN conjunct1] mu
  have cu: "checkHeight ?u = ?u\<lparr>console := [''slide 1 is 50px too high'']\<rparr>"
    by simp
  from E [THEN conjunct1] have ce: "checkHeight ?e = ?e"
    by simp
  from W [THEN conjunct2, THEN conjunct2, THEN conjunct2, THEN conjunct1] mw
  have ih: "js_includes ''slide (h:3, v:2) is 50px too high'' ''3''"
    by (simp add: number_to_string_examples)
  from W [THEN conjunct2, THEN conjunct2, THEN conjunct2, THEN conjunct2, THEN conjunct1] mw
  have iv: "js_includes ''slide (h:3, v:2) is 50px too high'' ''2''"
    by (simp add: number_to_string_examples)
  from W [THEN conjunct2, THEN conjunct2, THEN conjunct2, THEN conjunct2, THEN conjunct2,
      THEN conjunct1] mw
  have io: "js_includes ''slide (h:3, v:2) is 50px too high'' ''50''"
    by (simp add: number_to_string_examples)
  from cw cu ce ih iv io show ?thesis by simp
qed


section \<open>Properties of the script loader\<close>

lemma finish_without_callback: "callback l = None \<Longrightarrow> finish l = l"
  by (simp add: finish_def)

lemma notify_without_callback: "callback l = None \<Longrightarrow> notify n l = l"
  by (cases n) (simp_all add: finish_without_callback)

lemma notify_all_without_callback: "callback l = None \<Longrightarrow> notify_all ns l = l"
  by (induction ns arbitrary: l) (simp_all add: notify_without_callback)

lemma notify_ignored: "\<not> completes n \<Longrightarrow> notify n l = l"
  by (cases n) simp_all

subsection \<open>A callback that returns\<close>

lemma notify_returning:
  "completes n \<Longrightarrow> callback l = Some f \<Longrightarrow> f (program l) = Returns w \<Longrightarrow>
   notify n l = l\<lparr>program := w, invocations := Suc (invocations l), callback := None\<rparr>"
  by (cases n) (simp_all add: finish_def)

lemma notify_all_returning:
  "callback l = Some f \<Longrightarrow> f (program l) = Returns w \<Longrightarrow>
   notify_all ns l =
     (if list_ex completes ns
      then l\<lparr>program := w, invocations := Suc (invocations l), callback := None\<rparr>
      else l)"
proof (induction ns arbitrary: l)
  case Nil
  then show ?case by simp
next
  case (Cons n ns)
  show ?case
  proof (cases "completes n")
    case True
    with Cons.prems show ?thesis
      by (simp add: notify_returning notify_all_without_callback)
  next
    case False
    with Cons show ?thesis
      by (simp add: notify_ignored)
  qed
qed

text \<open>
  With a callback whose call returns, the callback runs at most once whatever
  notifications arrive, and exactly once as soon as one of them is the load event or a
  ready-state change with state \<open>loaded\<close>; before that it has not run.
\<close>

lemma loadScript_returning_callback_once:
  assumes "f w = Returns w'"
  shows "invocations (notify_all ns (loadScript url (Some f) w))
           = (if list_ex completes ns then 1 else 0)"
    and "program (notify_all ns (loadScript url (Some f) w))
           = (if list_ex completes ns then w' else w)"
proof -
  have cb: "callback (loadScript url (Some f) w) = Some f"
    and pr: "f (program (loadScript url (Some f) w)) = Returns w'"
    using assms by (simp_all add: loadScript_def)
  show "invocations (notify_all ns (loadScript url (Some f) w))
           = (if list_ex completes ns then 1 else 0)"
    by (simp add: notify_all_returning [OF cb pr]) (simp add: loadScript_def)
  show "program (notify_all ns (loadScript url (Some f) w))
           = (if list_ex completes ns then w' else w)"
    by (simp add: notify_all_returning [OF cb pr]) (simp add: loadScript_def)
qed

lemma loadScript_returning_example:
  "invocations (notify_all [ReadyStateChange ''loading'', Load, ReadyStateChange ''loaded'', Load]
      (loadScript ''tex-svg.js'' (Some (\<lambda>n. Returns (Suc n))) (0::nat))) = 1"
  by (simp add: loadScript_def finish_def)

subsection \<open>A callback that throws\<close>

lemma notify_throwing:
  "callback l = Some (\<lambda>w. Throws (g w)) \<Longrightarrow>
   notify n l =
     (if completes n
      then l\<lparr>program := g (program l), invocations := Suc (invocations l)\<rparr>
      else l)"
  by (cases n) (simp_all add: finish_def)

lemma notify_all_throwing:
  "callback l = Some (\<lambda>w. Throws (g w)) \<Longrightarrow>
   invocations (notify_all ns l) = invocations l + length (filter completes ns)
   \<and> callback (notify_all ns l) = Some (\<lambda>w. Throws (g w))"
proof (induction ns arbitrary: l)
  case Nil
  then show ?case by simp
next
  case (Cons n ns)
  show ?case
  proof (cases "completes n")
    case True
    let ?l' = "l\<lparr>program := g (program l), invocations := Suc (invocations l)\<rparr>"
    from Cons.prems have "callback ?l' = Some (\<lambda>w. Throws (g w))" by simp
    from Cons.IH [OF this] True Cons.prems show ?thesis
      by (simp add: notify_throwing)
  next
    case False
    with Cons show ?thesis
      by (simp add: notify_ignored)
  qed
qed

text \<open>
  C1. The claim holds of a callback that returns (lemma
  \<open>loadScript_returning_callback_once\<close>), not of every function callback: when the call
  throws, \<open>finish\<close> is left before \<open>callback = null\<close>, so the callback is still set and
  every later notification that reaches \<open>finish\<close> calls it again. With a callback that
  always throws, the number of calls is the number of such notifications: two when the
  load event and the ready-state change to \<open>loaded\<close> both fire, in either order.
\<close>

theorem loadScript_throwing_callback_again:
  "invocations (notify_all ns (loadScript url (Some (\<lambda>w. Throws (g w))) w))
     = length (filter completes ns)
   \<and> invocations (notify_all [Load, ReadyStateChange ''loaded'']
        (loadScript url (Some (\<lambda>w. Throws (g w))) w)) = 2
   \<and> invocations (notify_all [ReadyStateChange ''loaded'', Load]
        (loadScript url (Some (\<lambda>w. Throws (g w))) w)) = 2
   \<and> invocations (notify_all [Load, ReadyStateChange ''loaded'', Load]
        (loadScript ''tex-svg.js'' (Some (\<lambda>n. Throws (Suc n))) (0::nat))) = 3"
proof -
  have cb: "callback (loadScript u (Some (\<lambda>w. Throws (h w))) v) = Some (\<lambda>w. Throws (h w))"
    and i0: "invocations (loadScript u (Some (\<lambda>w. Throws (h w))) v) = 0"
    for u v and h :: "'b \<Rightarrow> 'b"
    by (simp_all add: loadScript_def)
  have count: "invocations (notify_all ms (loadScript u (Some (\<lambda>w. Throws (h w))) v))
      = length (filter completes ms)" for ms u v and h :: "'b \<Rightarrow> 'b"
    using notify_all_throwing [OF cb, of ms u h v] by (simp add: i0)
  have a: "invocations (notify_all [Load, ReadyStateChange ''loaded'']
        (loadScript url (Some (\<lambda>w. Throws (g w))) w)) = 2"
    by (simp only: count) simp
  have b: "invocations (notify_all [ReadyStateChange ''loaded'', Load]
        (loadScript url (Some (\<lambda>w. Throws (g w))) w)) = 2"
    by (simp only: count) simp
  have c: "invocations (notify_all [Load, ReadyStateChange ''loaded'', Load]
        (loadScript ''tex-svg.js'' (Some (\<lambda>n. Throws (Suc n))) (0::nat))) = 3"
    by (simp only: count) simp
  from count [of ns url g w] a b c show ?thesis by blast
qed


section \<open>Properties of the link fixup\<close>

subsection \<open>Paths and nodes\<close>

lemma shallowD: "shallow h \<Longrightarrow> h (Element k t as cs) = h (Element k t as cs')"
  unfolding shallow_def by blast

lemma child_nodes_heads:
  "(p, n) \<in> set (child_nodes i cs) \<Longrightarrow> \<exists>j q. p = j # q \<and> i \<le> j"
proof (induction cs arbitrary: i)
  case Nil
  then show ?case by simp
next
  case (Cons c cs)
  then show ?case by (fastforce)
qed

lemma distinct_subtree_nodes:
  "distinct (map fst (subtree_nodes d))"
  "distinct (map fst (child_nodes i cs))"
proof (induction d and i cs rule: subtree_nodes_child_nodes.induct)
  case (1 s)
  then show ?case by simp
next
  case (2 k t as cs)
  then show ?case using child_nodes_heads by (fastforce)
next
  case (3 i)
  then show ?case by simp
next
  case (4 i c cs)
  have a: "distinct (map fst (map (\<lambda>(p, n). (i # p, n)) (subtree_nodes c)))"
    using 4(1) by (simp add: distinct_map inj_on_def case_prod_beta comp_def)
  have b: "set (map fst (map (\<lambda>(p, n). (i # p, n)) (subtree_nodes c)))
           \<inter> set (map fst (child_nodes (Suc i) cs)) = {}"
    using child_nodes_heads [of _ _ "Suc i" cs] by fastforce
  from a b 4(2) show ?case by simp
qed

lemma node_at_in_subtree_nodes:
  "node_at d p = Some n \<Longrightarrow> (p, n) \<in> set (subtree_nodes d)"
  "j < length cs \<Longrightarrow> node_at (cs ! j) q = Some n \<Longrightarrow> ((i + j) # q, n) \<in> set (child_nodes i cs)"
proof (induction d and i cs arbitrary: p n and j q n rule: subtree_nodes_child_nodes.induct)
  case (1 s)
  then show ?case by (cases p) auto
next
  case (2 k t as cs)
  show ?case
  proof (cases p)
    case Nil
    with 2 show ?thesis by auto
  next
    case (Cons j q)
    with 2(2) have "j < length cs" "node_at (cs ! j) q = Some n"
      by (simp_all split: if_splits)
    from 2(1) [OF this] Cons show ?thesis by simp
  qed
next
  case (3 i)
  then show ?case by simp
next
  case (4 i c cs)
  show ?case
  proof (cases j)
    case 0
    with 4(4) have "node_at c q = Some n" by simp
    from 4(1) [OF this] 0 show ?thesis by force
  next
    case (Suc j')
    with 4(3,4) have "j' < length cs" "node_at (cs ! j') q = Some n" by simp_all
    from 4(2) [OF this] Suc show ?thesis by simp
  qed
qed

lemma subtree_nodes_node_at:
  "(p, n) \<in> set (subtree_nodes d) \<Longrightarrow> node_at d p = Some n"
  "(p, n) \<in> set (child_nodes i cs) \<Longrightarrow>
     \<exists>j q. p = (i + j) # q \<and> j < length cs \<and> node_at (cs ! j) q = Some n"
proof (induction d and i cs arbitrary: p n and p n rule: subtree_nodes_child_nodes.induct)
  case (1 s)
  then show ?case by simp
next
  case (2 k t as cs)
  from 2(2) consider "p = [] \<and> n = Element k t as cs" | "(p, n) \<in> set (child_nodes 0 cs)"
    by auto
  then show ?case
  proof cases
    case 1
    then show ?thesis by simp
  next
    case 2
    from "2.IH" [OF this] show ?thesis by auto
  qed
next
  case (3 i)
  then show ?case by simp
next
  case (4 i c cs)
  from 4(3) consider q where "p = i # q" "(q, n) \<in> set (subtree_nodes c)"
    | "(p, n) \<in> set (child_nodes (Suc i) cs)"
    by auto
  then show ?case
  proof cases
    case 1
    from 4(1) [OF 1(2)] 1(1) show ?thesis
      by (intro exI [of _ 0] exI [of _ q]) simp
  next
    case 2
    from 4(2) [OF this] obtain j q where
      "p = (Suc i + j) # q" "j < length cs" "node_at (cs ! j) q = Some n" by blast
    then show ?thesis
      by (intro exI [of _ "Suc j"] exI [of _ q]) simp
  qed
qed

subsection \<open>Attribute updates keep the shape of the tree\<close>

lemma node_at_update_at_self:
  "node_at (update_at a f d) a = map_option f (node_at d a)"
proof (induction a arbitrary: d)
  case Nil
  then show ?case by simp
next
  case (Cons i a)
  then show ?case by (cases d) simp_all
qed

lemma node_at_update_at_shallow:
  "shallow h \<Longrightarrow> p \<noteq> a \<Longrightarrow>
   map_option h (node_at (update_at a (map_attrs g) d) p) = map_option h (node_at d p)"
proof (induction a arbitrary: d p)
  case Nil
  then obtain i q where "p = i # q" by (cases p) auto
  then show ?case by (cases d) simp_all
next
  case (Cons j a)
  show ?case
  proof (cases d)
    case (Text s)
    then show ?thesis by simp
  next
    case (Element k t as cs)
    show ?thesis
    proof (cases p)
      case Nil
      with Element Cons.prems(1) show ?thesis
        by (auto dest: shallowD)
    next
      case (Cons i q)
      show ?thesis
      proof (cases "i = j")
        case True
        with Cons Cons.prems(2) have "q \<noteq> a" by simp
        from Cons.IH [OF Cons.prems(1) this] Element Cons True show ?thesis by simp
      next
        case False
        with Element Cons show ?thesis by simp
      qed
    qed
  qed
qed

lemma node_at_update_at_invariant:
  assumes "shallow h" and "\<And>n. h (map_attrs g n) = h n"
  shows "map_option h (node_at (update_at a (map_attrs g) d) p) = map_option h (node_at d p)"
proof (cases "p = a")
  case True
  then show ?thesis
    by (simp add: node_at_update_at_self option.map_comp comp_def assms(2))
next
  case False
  with assms(1) show ?thesis by (rule node_at_update_at_shallow)
qed

lemma child_nodes_list_update:
  assumes "map (apsnd h) (subtree_nodes x) = map (apsnd h) (subtree_nodes (cs ! j))"
    and "j < length cs"
  shows "map (apsnd h) (child_nodes i (cs[j := x])) = map (apsnd h) (child_nodes i cs)"
  using assms
proof (induction cs arbitrary: i j)
  case Nil
  then show ?case by simp
next
  case (Cons c cs)
  show ?case
  proof (cases j)
    case 0
    have "map (apsnd h) (map (\<lambda>(p, n). (i # p, n)) (subtree_nodes x))
        = map (\<lambda>(p, v). (i # p, v)) (map (apsnd h) (subtree_nodes x))"
      by (simp add: case_prod_beta apsnd_def map_prod_def)
    also have "\<dots> = map (\<lambda>(p, v). (i # p, v)) (map (apsnd h) (subtree_nodes c))"
      using Cons.prems(1) 0 by simp
    also have "\<dots> = map (apsnd h) (map (\<lambda>(p, n). (i # p, n)) (subtree_nodes c))"
      by (simp add: case_prod_beta apsnd_def map_prod_def)
    finally show ?thesis using 0 by simp
  next
    case (Suc j')
    with Cons.prems have "map (apsnd h) (subtree_nodes x) = map (apsnd h) (subtree_nodes (cs ! j'))"
      and "j' < length cs" by simp_all
    from Cons.IH [OF this] Suc show ?thesis by simp
  qed
qed

lemma subtree_nodes_update_at:
  assumes "shallow h" and "\<And>n. h (map_attrs g n) = h n"
  shows "map (apsnd h) (subtree_nodes (update_at a (map_attrs g) d)) = map (apsnd h) (subtree_nodes d)"
proof (induction a arbitrary: d)
  case Nil
  show ?case
    using assms(2) [of d] by (cases d) simp_all
next
  case (Cons j a)
  show ?case
  proof (cases d)
    case (Text s)
    then show ?thesis by simp
  next
    case (Element k t as cs)
    show ?thesis
    proof (cases "j < length cs")
      case True
      have "map (apsnd h) (child_nodes 0 (cs[j := update_at a (map_attrs g) (cs ! j)]))
          = map (apsnd h) (child_nodes 0 cs)"
        using Cons.IH True by (rule child_nodes_list_update)
      with Element True assms(1) show ?thesis
        by (auto dest: shallowD)
    next
      case False
      with Element show ?thesis by simp
    qed
  qed
qed

lemma filter_paths_apsnd:
  "map fst (filter (\<lambda>(p, n). P n) xs) = map fst (filter snd (map (apsnd P) xs))"
  by (induction xs) auto

lemma find_paths_apsnd:
  "map_option fst (find (\<lambda>(p, n). P n) xs) = map_option fst (find snd (map (apsnd P) xs))"
  by (induction xs) auto

lemma shallow_is_tag: "shallow (is_tag t)"
  by (simp add: shallow_def is_tag_def)

lemma shallow_has_id: "shallow (has_id l)"
  by (simp add: shallow_def has_id_def)

lemma shallow_node_attrs: "shallow node_attrs"
  by (simp add: shallow_def)

lemma shallow_href_baseVal: "shallow href_baseVal"
  unfolding shallow_def
proof (intro allI)
  fix k t as cs cs'
  show "href_baseVal (Element k t as cs) = href_baseVal (Element k t as cs')"
    by (cases k) simp_all
qed

lemma getAttribute_setAttribute:
  "getAttribute (setAttribute name v as) name' =
     (if name' = name then Some v else getAttribute as name')"
  by (induction as) auto

lemma is_tag_set_baseVal: "is_tag t (set_baseVal v n) = is_tag t n"
  by (cases n) (simp_all add: set_baseVal_def is_tag_def)

lemma has_id_set_baseVal: "has_id l (set_baseVal v n) = has_id l n"
  by (cases n) (simp_all add: set_baseVal_def has_id_def getAttribute_setAttribute)

lemma shallow_id_attr: "shallow id_attr"
  by (simp add: shallow_def id_attr_def)

lemma id_attr_set_baseVal: "id_attr (set_baseVal v n) = id_attr n"
  by (cases n) (simp_all add: set_baseVal_def id_attr_def getAttribute_setAttribute)

lemma getElementsByTagName_set_baseVal:
  "getElementsByTagName (update_at a (set_baseVal v) d) t = getElementsByTagName d t"
proof -
  have "map (apsnd (is_tag t)) (subtree_nodes (update_at a (map_attrs (setAttribute ''href'' v)) d))
      = map (apsnd (is_tag t)) (subtree_nodes d)"
    using shallow_is_tag is_tag_set_baseVal [unfolded set_baseVal_def]
    by (rule subtree_nodes_update_at)
  then show ?thesis
    by (simp add: getElementsByTagName_def filter_paths_apsnd set_baseVal_def)
qed

lemma getElementById_set_baseVal:
  "getElementById (update_at a (set_baseVal v) d) l = getElementById d l"
proof -
  have "map (apsnd (has_id l)) (subtree_nodes (update_at a (map_attrs (setAttribute ''href'' v)) d))
      = map (apsnd (has_id l)) (subtree_nodes d)"
    using shallow_has_id has_id_set_baseVal [unfolded set_baseVal_def]
    by (rule subtree_nodes_update_at)
  then show ?thesis
    by (simp add: getElementById_def find_paths_apsnd set_baseVal_def)
qed

lemma tag_at_set_baseVal:
  "tag_at (update_at a (set_baseVal v) d) t q = tag_at d t q"
proof -
  have "map_option (is_tag t) (node_at (update_at a (map_attrs (setAttribute ''href'' v)) d) q)
      = map_option (is_tag t) (node_at d q)"
    using shallow_is_tag is_tag_set_baseVal [unfolded set_baseVal_def]
    by (rule node_at_update_at_invariant)
  then show ?thesis
    by (auto simp: tag_at_def set_baseVal_def split: option.splits)
qed

lemma closest_set_baseVal:
  "closest (update_at a (set_baseVal v) d) p t = closest d p t"
proof -
  have "tag_at (update_at a (set_baseVal v) d) t = tag_at d t"
    by (rule ext) (rule tag_at_set_baseVal)
  then show ?thesis by (simp add: closest_def)
qed

lemma element_id_set_baseVal:
  "element_id (update_at a (set_baseVal v) d) q = element_id d q"
proof -
  have "map_option id_attr (node_at (update_at a (map_attrs (setAttribute ''href'' v)) d) q)
      = map_option id_attr (node_at d q)"
    using shallow_id_attr id_attr_set_baseVal [unfolded set_baseVal_def]
    by (rule node_at_update_at_invariant)
  then show ?thesis
    by (auto simp: element_id_def set_baseVal_def id_attr_def split: option.splits)
qed

subsection \<open>The link fixup, one anchor at a time\<close>

lemma shallow_own_part: "shallow own_part"
  by (simp add: shallow_def)

lemma fixLink_action:
  "fixLink dec d a =
     (case node_at d a of
        None \<Rightarrow> Some d
      | Some n \<Rightarrow>
          (case link_action dec (slide_link d) (href_baseVal n) of
             Keep \<Rightarrow> Some d
           | Throw \<Rightarrow> None
           | Rewrite v \<Rightarrow> Some (update_at a (set_baseVal v) d)))"
  by (simp add: fixLink_def link_action_def slide_link_def split: option.splits)

lemma slide_link_set_baseVal:
  "slide_link (update_at a (set_baseVal v) d) = slide_link d"
  by (rule ext)
    (simp add: slide_link_def getElementById_set_baseVal closest_set_baseVal
      element_id_set_baseVal cong: option.case_cong)

lemma fixLink_cases:
  assumes "fixLink dec d a = Some d'"
  obtains "d' = d" | v where "d' = update_at a (set_baseVal v) d"
  using assms
  by (auto simp: fixLink_action split: option.splits action.splits)

lemma fixLink_slide_link: "fixLink dec d a = Some d' \<Longrightarrow> slide_link d' = slide_link d"
  by (erule fixLink_cases) (simp_all add: slide_link_set_baseVal)

lemma fixLink_anchors:
  "fixLink dec d a = Some d' \<Longrightarrow> getElementsByTagName d' t = getElementsByTagName d t"
  by (erule fixLink_cases) (simp_all add: getElementsByTagName_set_baseVal)

lemma fixLink_tag_at: "fixLink dec d a = Some d' \<Longrightarrow> tag_at d' t q = tag_at d t q"
  by (erule fixLink_cases) (simp_all add: tag_at_set_baseVal)

lemma fixLink_other:
  assumes "fixLink dec d a = Some d'" and "shallow h" and "p \<noteq> a"
  shows "map_option h (node_at d' p) = map_option h (node_at d p)"
  using assms(1)
proof (rule fixLink_cases)
  assume "d' = d"
  then show ?thesis by simp
next
  fix v assume "d' = update_at a (set_baseVal v) d"
  with assms(2,3) show ?thesis
    by (simp add: set_baseVal_def node_at_update_at_shallow)
qed

lemma fixLink_plain:
  assumes "fixLink dec d a = Some d'" and "node_at d a = Some n" and "href_baseVal n = None"
  shows "d' = d"
  using assms by (simp add: fixLink_action link_action_def)

lemma fixLinks_loop_slide_link:
  "fixLinks_loop dec d as = (d1, out) \<Longrightarrow> slide_link d1 = slide_link d"
proof (induction as arbitrary: d)
  case Nil
  then show ?case by simp
next
  case (Cons a as)
  show ?case
  proof (cases "fixLink dec d a")
    case None
    with Cons.prems show ?thesis by simp
  next
    case (Some d')
    with Cons.prems have "fixLinks_loop dec d' as = (d1, out)" by simp
    from Cons.IH [OF this] fixLink_slide_link [OF Some] show ?thesis by simp
  qed
qed

lemma fixLinks_loop_anchors:
  "fixLinks_loop dec d as = (d1, out) \<Longrightarrow> getElementsByTagName d1 t = getElementsByTagName d t"
proof (induction as arbitrary: d)
  case Nil
  then show ?case by simp
next
  case (Cons a as)
  show ?case
  proof (cases "fixLink dec d a")
    case None
    with Cons.prems show ?thesis by simp
  next
    case (Some d')
    with Cons.prems have "fixLinks_loop dec d' as = (d1, out)" by simp
    from Cons.IH [OF this] fixLink_anchors [OF Some] show ?thesis by simp
  qed
qed

text \<open>A node that is not among the anchors still to visit, or whose \<open>href\<close> is a plain
  string, keeps its tag and attributes.\<close>

lemma fixLinks_loop_frame:
  assumes "fixLinks_loop dec d as = (d1, out)" and "shallow h"
    and "p \<notin> set as \<or> (\<exists>n. node_at d p = Some n \<and> href_baseVal n = None)"
  shows "map_option h (node_at d1 p) = map_option h (node_at d p)"
  using assms(1,3)
proof (induction as arbitrary: d)
  case Nil
  then show ?case by simp
next
  case (Cons a as)
  show ?case
  proof (cases "fixLink dec d a")
    case None
    with Cons.prems show ?thesis by simp
  next
    case (Some d')
    with Cons.prems have run: "fixLinks_loop dec d' as = (d1, out)" by simp
    have step: "map_option h (node_at d' p) = map_option h (node_at d p)"
      and step': "map_option href_baseVal (node_at d' p) = map_option href_baseVal (node_at d p)"
    proof -
      from Cons.prems(2) consider "p \<noteq> a" | n where "node_at d p = Some n" "href_baseVal n = None" "p = a"
        by auto
      then have "(map_option h (node_at d' p) = map_option h (node_at d p))
          \<and> (map_option href_baseVal (node_at d' p) = map_option href_baseVal (node_at d p))"
      proof cases
        case 1
        with Some assms(2) shallow_href_baseVal show ?thesis
          by (simp add: fixLink_other)
      next
        case 2
        with Some have "d' = d" by (auto dest: fixLink_plain)
        then show ?thesis by simp
      qed
      then show "map_option h (node_at d' p) = map_option h (node_at d p)"
        and "map_option href_baseVal (node_at d' p) = map_option href_baseVal (node_at d p)"
        by simp_all
    qed
    have "p \<notin> set as \<or> (\<exists>n. node_at d' p = Some n \<and> href_baseVal n = None)"
    proof (cases "p \<in> set as")
      case False
      then show ?thesis by simp
    next
      case True
      with Cons.prems(2) obtain n where "node_at d p = Some n" "href_baseVal n = None" by auto
      with step' show ?thesis by (auto simp: map_option_case split: option.splits)
    qed
    from Cons.IH [OF run this] step show ?thesis by simp
  qed
qed

subsection \<open>Only the href attributes of SVG anchors change\<close>

lemma removeAttribute_setAttribute:
  "removeAttribute name (setAttribute name v as) = removeAttribute name as"
  by (induction as) (auto simp: removeAttribute_def)

lemma map_list_update_same:
  "f x = f (cs ! j) \<Longrightarrow> map f (cs[j := x]) = map f cs"
  by (metis list_update_id map_update)

lemma svg_anchor_shape:
  assumes "href_baseVal n \<noteq> None" and "is_tag ''a'' n"
  obtains as cs where "n = Element SVG ''a'' as cs"
proof (cases n)
  case (Text s)
  with assms show ?thesis by simp
next
  case (Element k t as cs)
  with assms have "k = SVG" "t = ''a''"
    by (cases k; simp add: is_tag_def)+
  with Element that show ?thesis by simp
qed

lemma erase_href_set_baseVal:
  assumes "node_at d a = Some n" and "href_baseVal n \<noteq> None" and "is_tag ''a'' n"
  shows "erase_href (update_at a (set_baseVal v) d) = erase_href d"
  using assms(1)
proof (induction a arbitrary: d)
  case Nil
  then have "d = n" by simp
  with assms(2,3) obtain as cs where "d = Element SVG ''a'' as cs"
    by (metis svg_anchor_shape)
  then show ?case
    by (simp add: set_baseVal_def removeAttribute_setAttribute)
next
  case (Cons j a)
  show ?case
  proof (cases d)
    case (Text s)
    then show ?thesis by simp
  next
    case (Element k t as cs)
    with Cons.prems have j: "j < length cs" and at: "node_at (cs ! j) a = Some n"
      by (simp_all split: if_splits)
    from Cons.IH [OF at]
    have "map erase_href (cs[j := update_at a (set_baseVal v) (cs ! j)]) = map erase_href cs"
      by (rule map_list_update_same)
    with Element j show ?thesis by simp
  qed
qed

lemma link_action_Rewrite_baseVal: "link_action dec sl b = Rewrite v \<Longrightarrow> b \<noteq> None"
  by (cases b) (simp_all add: link_action_def)

lemma fixLink_erase_href:
  assumes "tag_at d ''a'' a" and "fixLink dec d a = Some d'"
  shows "erase_href d' = erase_href d"
proof -
  from assms(1) obtain n where n: "node_at d a = Some n" "is_tag ''a'' n"
    by (auto simp: tag_at_def split: option.splits)
  show ?thesis
  proof (cases "link_action dec (slide_link d) (href_baseVal n)")
    case Keep
    with assms(2) n show ?thesis by (simp add: fixLink_action)
  next
    case Throw
    with assms(2) n show ?thesis by (simp add: fixLink_action)
  next
    case (Rewrite v)
    then have "href_baseVal n \<noteq> None"
      by (rule link_action_Rewrite_baseVal)
    with n have "erase_href (update_at a (set_baseVal v) d) = erase_href d"
      by (intro erase_href_set_baseVal)
    with assms(2) n Rewrite show ?thesis by (simp add: fixLink_action)
  qed
qed

lemma fixLinks_loop_erase_href:
  assumes "\<forall>a \<in> set as. tag_at d ''a'' a" and "fixLinks_loop dec d as = (d1, out)"
  shows "erase_href d1 = erase_href d"
  using assms
proof (induction as arbitrary: d)
  case Nil
  then show ?case by simp
next
  case (Cons a as)
  show ?case
  proof (cases "fixLink dec d a")
    case None
    with Cons.prems show ?thesis by simp
  next
    case (Some d')
    with Cons.prems have run: "fixLinks_loop dec d' as = (d1, out)" by simp
    from Cons.prems(1) have "\<forall>x \<in> set as. tag_at d' ''a'' x"
      by (simp add: fixLink_tag_at [OF Some])
    from Cons.IH [OF this run] fixLink_erase_href [OF _ Some] Cons.prems(1)
    show ?thesis by simp
  qed
qed

lemma getElementsByTagName_tag_at:
  "a \<in> set (getElementsByTagName d t) \<Longrightarrow> tag_at d t a"
  by (auto simp: getElementsByTagName_def tag_at_def dest: subtree_nodes_node_at(1))

lemma tag_at_getElementsByTagName:
  "tag_at d t a \<Longrightarrow> a \<in> set (getElementsByTagName d t)"
  by (force simp: getElementsByTagName_def tag_at_def split: option.splits
      dest: node_at_in_subtree_nodes(1))

lemma distinct_getElementsByTagName: "distinct (getElementsByTagName d t)"
  unfolding getElementsByTagName_def
  using distinct_subtree_nodes(1) [of d] by (simp add: distinct_map_filter)

text \<open>
  C9. The link fixup changes nothing but \<open>href\<close> attributes of SVG anchors: with those
  attributes forgotten, the document after the run is the document before. Every node
  whose \<open>href\<close> has no \<open>baseVal\<close> (an HTML anchor, whose \<open>href\<close> is a string, in
  particular) has after the run the tag and the attributes it had before, whatever its
  target fragment.
\<close>

theorem fixLinks_only_svg_anchors:
  "erase_href (fst (fixLinks dec d)) = erase_href d
   \<and> (\<forall>p n. node_at d p = Some n \<and> href_baseVal n = None
        \<longrightarrow> map_option own_part (node_at (fst (fixLinks dec d)) p) = Some (own_part n))"
proof -
  obtain d1 out where run: "fixLinks_loop dec d (getElementsByTagName d ''a'') = (d1, out)"
    by (cases "fixLinks_loop dec d (getElementsByTagName d ''a'')")
  have "\<forall>a \<in> set (getElementsByTagName d ''a''). tag_at d ''a'' a"
    by (simp add: getElementsByTagName_tag_at)
  then have e: "erase_href d1 = erase_href d"
    using run by (rule fixLinks_loop_erase_href)
  have "map_option own_part (node_at d1 p) = Some (own_part n)"
    if "node_at d p = Some n" "href_baseVal n = None" for p n
    using fixLinks_loop_frame [OF run shallow_own_part, of p] that by auto
  with e run show ?thesis by (simp add: fixLinks_def)
qed

subsection \<open>The equation-link scenario\<close>

lemma href_baseVal_set_baseVal:
  "href_baseVal n \<noteq> None \<Longrightarrow> href_baseVal (set_baseVal v n) = Some v"
proof (cases n)
  case (Text s)
  assume "href_baseVal n \<noteq> None"
  with Text show ?thesis by simp
next
  case (Element k t as cs)
  assume "href_baseVal n \<noteq> None"
  with Element show ?thesis
    by (cases k) (simp_all add: set_baseVal_def getAttribute_setAttribute)
qed

lemma fixLinks_loop_rewrites:
  assumes "distinct as" and "a \<in> set as" and "fixLinks_loop dec d as = (d1, Completed)"
    and "node_at d a = Some n"
    and "link_action dec (slide_link d) (href_baseVal n) = Rewrite v"
  shows "map_option href_baseVal (node_at d1 a) = Some (Some v)"
  using assms
proof (induction as arbitrary: d n)
  case Nil
  then show ?case by simp
next
  case (Cons x as)
  show ?case
  proof (cases "fixLink dec d x")
    case None
    with Cons.prems(3) show ?thesis by simp
  next
    case (Some d')
    with Cons.prems(3) have run: "fixLinks_loop dec d' as = (d1, Completed)" by simp
    show ?thesis
    proof (cases "x = a")
      case True
      with Some Cons.prems(4,5) have d': "d' = update_at a (set_baseVal v) d"
        by (simp add: fixLink_action)
      from Cons.prems(5) have "href_baseVal n \<noteq> None"
        by (rule link_action_Rewrite_baseVal)
      with d' Cons.prems(4) have "map_option href_baseVal (node_at d' a) = Some (Some v)"
        by (simp add: node_at_update_at_self href_baseVal_set_baseVal)
      moreover from True Cons.prems(1) have "a \<notin> set as" by simp
      ultimately show ?thesis
        using fixLinks_loop_frame [OF run shallow_href_baseVal, of a] by simp
    next
      case False
      with Cons.prems(2) have a: "a \<in> set as" by simp
      from False fixLink_other [OF Some shallow_href_baseVal, of a] Cons.prems(4)
      obtain n' where n': "node_at d' a = Some n'" "href_baseVal n' = href_baseVal n"
        by auto
      from Cons.prems(5) n' fixLink_slide_link [OF Some]
      have "link_action dec (slide_link d') (href_baseVal n') = Rewrite v" by simp
      from Cons.IH [OF _ a run n'(1) this] Cons.prems(1) show ?thesis by simp
    qed
  qed
qed

lemma marker_in_eqn_3: "js_includes ''#mjx-eqn:3'' ''#mjx-eqn''"
  by code_simp

lemma substring_eqn_3: "js_substring_from ''#mjx-eqn:3'' 1 = ''mjx-eqn:3''"
  by code_simp

text \<open>
  C5, as amended. Let an SVG anchor have the \<open>baseVal\<close> \<open>#mjx-eqn:3\<close>, let the document
  hold an element with identifier \<open>mjx-eqn:3\<close> whose nearest enclosing section has
  identifier \<open>slide-7\<close>, and let the run end without a \<open>URIError\<close>. Then the
  anchor's \<open>baseVal\<close> is \<open>#slide-7\<close> after the run.
\<close>

theorem fixLinks_equation_link:
  assumes "a \<in> set (getElementsByTagName d ''a'')"
    and "node_at d a = Some n" and "href_baseVal n = Some ''#mjx-eqn:3''"
    and "dec ''mjx-eqn:3'' = Some ''mjx-eqn:3''"
    and "getElementById d ''mjx-eqn:3'' = Some eqn"
    and "closest d eqn ''section'' = Some s"
    and "element_id d s = ''slide-7''"
    and "snd (fixLinks dec d) = Completed"
  shows "map_option href_baseVal (node_at (fst (fixLinks dec d)) a) = Some (Some ''#slide-7'')"
proof -
  obtain d1 where run: "fixLinks_loop dec d (getElementsByTagName d ''a'') = (d1, Completed)"
    using assms(8) by (cases "fixLinks_loop dec d (getElementsByTagName d ''a'')")
      (simp add: fixLinks_def)
  have "slide_link d ''mjx-eqn:3'' = Some ''#slide-7''"
    using assms(5-7) by (simp add: slide_link_def)
  with assms(3,4) have "link_action dec (slide_link d) (href_baseVal n) = Rewrite ''#slide-7''"
    by (simp add: link_action_def marker_in_eqn_3 substring_eqn_3)
  from fixLinks_loop_rewrites [OF distinct_getElementsByTagName assms(1) run assms(2) this] run
  show ?thesis by (simp add: fixLinks_def)
qed

subsection \<open>Running the link fixup twice\<close>

lemma slide_link_marker_free:
  assumes "marker_free_sections d" and "slide_link d l = Some v"
  shows "\<not> js_includes v ''#mjx-eqn''"
proof -
  from assms(2) obtain eqn s where s: "closest d eqn ''section'' = Some s"
    and v: "v = ''#'' @ element_id d s"
    by (auto simp: slide_link_def split: option.splits)
  from s have "tag_at d ''section'' s"
    by (auto simp: closest_def find_Some_iff)
  then have "s \<in> set (getElementsByTagName d ''section'')"
    by (rule tag_at_getElementsByTagName)
  with assms(1) v show ?thesis
    by (simp add: marker_free_sections_def list_all_iff)
qed

lemma link_action_settled:
  assumes "\<And>l v. sl l = Some v \<Longrightarrow> \<not> js_includes v ''#mjx-eqn''"
    and "link_action dec sl b = Rewrite v"
  shows "link_action dec sl (Some v) = Keep"
proof -
  from assms(2) obtain l where "sl l = Some v"
    by (auto simp: link_action_def split: option.splits if_splits)
  with assms(1) have "\<not> js_includes v ''#mjx-eqn''" by blast
  then show ?thesis by (simp add: link_action_def)
qed

lemma fixLinks_loop_settled:
  assumes "distinct as"
    and "\<And>l v. slide_link d l = Some v \<Longrightarrow> \<not> js_includes v ''#mjx-eqn''"
    and "fixLinks_loop dec d as = (d1, out)"
  shows "fixLinks_loop dec d1 as = (d1, out)"
  using assms
proof (induction as arbitrary: d)
  case Nil
  then show ?case by simp
next
  case (Cons a as)
  show ?case
  proof (cases "fixLink dec d a")
    case None
    with Cons.prems(3) show ?thesis by auto
  next
    case (Some d')
    with Cons.prems(3) have run: "fixLinks_loop dec d' as = (d1, out)" by simp
    have sl': "slide_link d' = slide_link d"
      using Some by (rule fixLink_slide_link)
    have sl1: "slide_link d1 = slide_link d"
      using fixLinks_loop_slide_link [OF run] sl' by simp
    from Cons.prems(1) have dist: "distinct as" and fresh: "a \<notin> set as" by simp_all
    have rest: "fixLinks_loop dec d1 as = (d1, out)"
      using dist _ run
    proof (rule Cons.IH)
      fix l v assume "slide_link d' l = Some v"
      with sl' Cons.prems(2) show "\<not> js_includes v ''#mjx-eqn''" by simp
    qed
    have same: "map_option href_baseVal (node_at d1 a) = map_option href_baseVal (node_at d' a)"
      using fixLinks_loop_frame [OF run shallow_href_baseVal, of a] fresh by simp
    have "fixLink dec d1 a = Some d1"
    proof (cases "node_at d1 a")
      case None
      then show ?thesis by (simp add: fixLink_action)
    next
      case (Some n1)
      with same obtain n' where n': "node_at d' a = Some n'" "href_baseVal n1 = href_baseVal n'"
        by (cases "node_at d' a") auto
      have "link_action dec (slide_link d) (href_baseVal n') = Keep"
      proof (cases "node_at d a")
        case None
        with \<open>fixLink dec d a = Some d'\<close> have "d' = d" by (simp add: fixLink_action)
        with None n' show ?thesis by simp
      next
        case (Some n)
        show ?thesis
        proof (cases "link_action dec (slide_link d) (href_baseVal n)")
          case Keep
          with \<open>fixLink dec d a = Some d'\<close> Some have "d' = d" by (simp add: fixLink_action)
          with Some n' Keep show ?thesis by simp
        next
          case Throw
          with \<open>fixLink dec d a = Some d'\<close> Some show ?thesis by (simp add: fixLink_action)
        next
          case (Rewrite v)
          with \<open>fixLink dec d a = Some d'\<close> Some have "d' = update_at a (set_baseVal v) d"
            by (simp add: fixLink_action)
          with Some n' have "n' = set_baseVal v n"
            by (simp add: node_at_update_at_self)
          with link_action_Rewrite_baseVal [OF Rewrite] have "href_baseVal n' = Some v"
            by (simp add: href_baseVal_set_baseVal)
          with link_action_settled [OF Cons.prems(2) Rewrite] show ?thesis by simp
        qed
      qed
      with Some n' sl1 show ?thesis by (simp add: fixLink_action)
    qed
    with rest show ?thesis by simp
  qed
qed

text \<open>
  C4, as amended. When no section's identifier, written as a fragment, contains the
  marker \<open>#mjx-eqn\<close>, a second run of the link fixup changes nothing and ends as the
  first did.
\<close>

theorem fixLinks_idempotent:
  "marker_free_sections d \<Longrightarrow> fixLinks dec (fst (fixLinks dec d)) = fixLinks dec d"
proof -
  assume free: "marker_free_sections d"
  obtain d1 out where run: "fixLinks_loop dec d (getElementsByTagName d ''a'') = (d1, out)"
    by (cases "fixLinks_loop dec d (getElementsByTagName d ''a'')")
  have "fixLinks_loop dec d1 (getElementsByTagName d ''a'') = (d1, out)"
    using distinct_getElementsByTagName _ run
  proof (rule fixLinks_loop_settled)
    fix l v assume "slide_link d l = Some v"
    with free show "\<not> js_includes v ''#mjx-eqn''" by (rule slide_link_marker_free)
  qed
  with run fixLinks_loop_anchors [OF run, of "''a''"] show ?thesis
    by (simp add: fixLinks_def)
qed

lemma equation_doc_fixed:
  "fixLinks decodeURIComponent equation_doc =
     (Element HTML ''html'' []
       [Element HTML ''section'' [(''id'', ''slide-7'')]
          [Element HTML ''p'' [] [Element SVG ''g'' [(''id'', ''mjx-eqn:3'')] []]],
        Element HTML ''section'' [(''id'', ''slide-8'')]
          [Element SVG ''a'' [(''href'', ''#slide-7'')] [Text ''(3)''],
           Element HTML ''a'' [(''href'', ''#mjx-eqn:3'')] [Text ''(3)'']]], Completed)"
  by code_simp

text \<open>The hypothesis holds of the first document, where the run rewrites a link.\<close>

theorem fixLinks_idempotent_witness:
  "marker_free_sections equation_doc
   \<and> fixLinks decodeURIComponent (fst (fixLinks decodeURIComponent equation_doc))
       = fixLinks decodeURIComponent equation_doc
   \<and> fst (fixLinks decodeURIComponent equation_doc) \<noteq> equation_doc"
proof -
  have h: "marker_free_sections equation_doc" by code_simp
  have "fst (fixLinks decodeURIComponent equation_doc) \<noteq> equation_doc"
    by (simp add: equation_doc_fixed) (simp add: equation_doc_def)
  with h fixLinks_idempotent [OF h, of decodeURIComponent] show ?thesis by simp
qed

text \<open>
  C4 as stated fails: the first run writes the fragment \<open>#mjx-eqn%3A2\<close> of the
  enclosing slide, which contains the marker, and the second run resolves it to another
  slide.
\<close>

theorem fixLinks_twice_counterexample:
  "fst (fixLinks decodeURIComponent encoded_id_doc)
     = Element HTML ''html'' []
       [Element HTML ''section'' [(''id'', ''mjx-eqn%3A2'')]
          [Element SVG ''g'' [(''id'', ''mjx-eqn:1'')] []],
        Element HTML ''section'' [(''id'', ''slide-3'')]
          [Element SVG ''g'' [(''id'', ''mjx-eqn:2'')] []],
        Element HTML ''section'' [(''id'', ''slide-4'')]
          [Element SVG ''a'' [(''href'', ''#mjx-eqn%3A2'')] [Text ''(1)'']]]
   \<and> fst (fixLinks decodeURIComponent (fst (fixLinks decodeURIComponent encoded_id_doc)))
     = Element HTML ''html'' []
       [Element HTML ''section'' [(''id'', ''mjx-eqn%3A2'')]
          [Element SVG ''g'' [(''id'', ''mjx-eqn:1'')] []],
        Element HTML ''section'' [(''id'', ''slide-3'')]
          [Element SVG ''g'' [(''id'', ''mjx-eqn:2'')] []],
        Element HTML ''section'' [(''id'', ''slide-4'')]
          [Element SVG ''a'' [(''href'', ''#slide-3'')] [Text ''(1)'']]]
   \<and> fixLinks decodeURIComponent (fst (fixLinks decodeURIComponent encoded_id_doc))
     \<noteq> fixLinks decodeURIComponent encoded_id_doc"
  by code_simp

theorem fixLinks_only_svg_anchors_witness:
  "erase_href (fst (fixLinks decodeURIComponent equation_doc)) = erase_href equation_doc
   \<and> node_at equation_doc [1, 1]
       = Some (Element HTML ''a'' [(''href'', ''#mjx-eqn:3'')] [Text ''(3)''])
   \<and> map_option own_part (node_at (fst (fixLinks decodeURIComponent equation_doc)) [1, 1])
       = Some (Element HTML ''a'' [(''href'', ''#mjx-eqn:3'')] [])"
proof -
  have at: "node_at equation_doc [1, 1]
       = Some (Element HTML ''a'' [(''href'', ''#mjx-eqn:3'')] [Text ''(3)''])"
    by code_simp
  have plain: "href_baseVal (Element HTML ''a'' [(''href'', ''#mjx-eqn:3'')] [Text ''(3)'']) = None"
    by simp
  from fixLinks_only_svg_anchors [of decodeURIComponent equation_doc]
  have e: "erase_href (fst (fixLinks decodeURIComponent equation_doc)) = erase_href equation_doc"
    and "map_option own_part (node_at (fst (fixLinks decodeURIComponent equation_doc)) [1, 1])
       = Some (own_part (Element HTML ''a'' [(''href'', ''#mjx-eqn:3'')] [Text ''(3)'']))"
    using at plain by blast+
  with at show ?thesis by simp
qed

text \<open>
  C5 as stated fails for an HTML anchor: its \<open>href\<close> is a string, the test of
  \<open>href.baseVal\<close> fails and the anchor keeps its fragment. It also fails for an SVG
  anchor that comes after one whose fragment does not decode: the exception ends the
  loop before the anchor is reached.
\<close>

theorem fixLinks_equation_link_counterexample:
  "node_at equation_doc [1, 1]
     = Some (Element HTML ''a'' [(''href'', ''#mjx-eqn:3'')] [Text ''(3)''])
   \<and> getElementById equation_doc ''mjx-eqn:3'' = Some [0, 0, 0]
   \<and> closest equation_doc [0, 0, 0] ''section'' = Some [0]
   \<and> element_id equation_doc [0] = ''slide-7''
   \<and> node_at (fst (fixLinks decodeURIComponent equation_doc)) [1, 1]
     = Some (Element HTML ''a'' [(''href'', ''#mjx-eqn:3'')] [Text ''(3)''])
   \<and> node_at broken_escape_doc [1, 1]
     = Some (Element SVG ''a'' [(''href'', ''#mjx-eqn:3'')] [Text ''(3)''])
   \<and> getElementById broken_escape_doc ''mjx-eqn:3'' = Some [0, 0]
   \<and> closest broken_escape_doc [0, 0] ''section'' = Some [0]
   \<and> element_id broken_escape_doc [0] = ''slide-7''
   \<and> fixLinks decodeURIComponent broken_escape_doc = (broken_escape_doc, URIError)"
  by code_simp

theorem fixLinks_equation_link_witness:
  "[1, 0] \<in> set (getElementsByTagName equation_doc ''a'')
   \<and> node_at equation_doc [1, 0]
       = Some (Element SVG ''a'' [(''href'', ''#mjx-eqn:3'')] [Text ''(3)''])
   \<and> snd (fixLinks decodeURIComponent equation_doc) = Completed
   \<and> map_option href_baseVal (node_at (fst (fixLinks decodeURIComponent equation_doc)) [1, 0])
       = Some (Some ''#slide-7'')"
proof -
  have h1: "[1, 0] \<in> set (getElementsByTagName equation_doc ''a'')" by code_simp
  have h2: "node_at equation_doc [1, 0]
       = Some (Element SVG ''a'' [(''href'', ''#mjx-eqn:3'')] [Text ''(3)''])" by code_simp
  have h3: "href_baseVal (Element SVG ''a'' [(''href'', ''#mjx-eqn:3'')] [Text ''(3)''])
       = Some ''#mjx-eqn:3''" by simp
  have h4: "decodeURIComponent ''mjx-eqn:3'' = Some ''mjx-eqn:3''" by code_simp
  have h5: "getElementById equation_doc ''mjx-eqn:3'' = Some [0, 0, 0]" by code_simp
  have h6: "closest equation_doc [0, 0, 0] ''section'' = Some [0]" by code_simp
  have h7: "element_id equation_doc [0] = ''slide-7''" by code_simp
  have h8: "snd (fixLinks decodeURIComponent equation_doc) = Completed"
    by (simp add: equation_doc_fixed)
  from fixLinks_equation_link [OF h1 h2 h3 h4 h5 h6 h7 h8] h1 h2 h8 show ?thesis by simp
qed


section \<open>Properties of the footer relocation\<close>










lemma fixFooters_one_footer:
  "fixFooters [one_footer_slide] =
     [Element HTML ''section'' []
        [Element HTML ''h1'' [] [Text ''Title''],
         Element HTML ''span'' [(''class'', ''footer'')] [Text ''X'']]]"
  by code_simp

text \<open>
  C7. On a slide with two paragraphs, each wrapping a footer, the live collection is
  \<open>[A, B]\<close> at first. Moving \<open>A\<close> to the end of the slide makes it \<open>[B, A]\<close>, so
  index 1 is \<open>A\<close> again: \<open>B\<close> is never visited and stays in its paragraph, which
  stays in the slide.
\<close>

theorem fixFooters_two_footers:
  "getElementsByClassName two_footer_slide ''footer'' = [[0, 0], [1, 0]]
   \<and> fixFooters [two_footer_slide] =
     [Element HTML ''section'' []
        [Element HTML ''p'' [] [Element HTML ''span'' [(''class'', ''footer'')] [Text ''B'']],
         Element HTML ''span'' [(''class'', ''footer'')] [Text ''A'']]]"
  by code_simp


section \<open>Properties of the initialisation\<close>

lemma of_char_bound: "(of_char c :: nat) < 256"
  by (rule of_char_mod_256 [where ?'a = nat, THEN ssubst]) simp






lemma defaults_step_lookup:
  "map_of (if \<not> hasOwnProperty options i then options @ [(i, v)] else options) k =
     (case map_of options k of
        Some x \<Rightarrow> Some x
      | None \<Rightarrow> if k = i then Some v else None)"
proof (cases "hasOwnProperty options i")
  case True
  then show ?thesis
    by (cases "map_of options k") (auto simp: hasOwnProperty_def)
next
  case False
  then show ?thesis
    by (cases "map_of options k") (simp_all add: hasOwnProperty_def map_add_def)
qed

lemma defaults_loop_lookup:
  "map_of (defaults_loop options d keys) k =
     (case map_of options k of
        Some v \<Rightarrow> Some v
      | None \<Rightarrow> if k \<in> set keys then Some (js_get (JObject d) k) else None)"
proof (induction keys arbitrary: options)
  case Nil
  then show ?case by (simp split: option.splits)
next
  case (Cons i keys)
  let ?options' = "if \<not> hasOwnProperty options i
        then options @ [(i, js_get (JObject d) i)] else options"
  have "map_of (defaults_loop options d (i # keys)) k = map_of (defaults_loop ?options' d keys) k"
    by simp
  also have "\<dots> = (case map_of ?options' k of
        Some v \<Rightarrow> Some v
      | None \<Rightarrow> if k \<in> set keys then Some (js_get (JObject d) k) else None)"
    by (rule Cons.IH)
  also have "\<dots> = (case map_of options k of
        Some v \<Rightarrow> Some v
      | None \<Rightarrow> if k \<in> set (i # keys) then Some (js_get (JObject d) k) else None)"
    unfolding defaults_step_lookup
    by (cases "map_of options k") auto
  finally show ?case .
qed

lemma defaults_lookup:
  "map_of (defaults options d) k =
     (case map_of options k of Some v \<Rightarrow> Some v | None \<Rightarrow> map_of d k)"
proof (cases "map_of d k")
  case None
  then have "k \<notin> set (map fst d)"
    by (simp add: map_of_eq_None_iff)
  with None show ?thesis
    by (simp add: defaults_def defaults_loop_lookup split: option.splits)
next
  case (Some v)
  then have "k \<in> set (map fst d)"
    by (metis map_of_eq_None_iff option.distinct(1) set_map)
  with Some show ?thesis
    by (simp add: defaults_def defaults_loop_lookup split: option.splits)
qed







lemma print_init_example:
  "document (print_init (deck_page ''?Print-PDF'' False)) =
     Element HTML ''div'' [(''class'', ''reveal'')]
       [Element HTML ''section'' [(''data-background-video'', ''bg.mp4#t=0.5'')]
          [Element HTML ''iframe''
             [(''class'', ''pdf''), (''data-src'', ''demo.html''), (''src'', ''demo.html'')] [],
           Element HTML ''video'' [(''src'', ''clip.mp4#t=0.5'')] []]]"
  by code_simp

lemma script_url_default:
  "script_url JUndefined = Some ''https://cdn.jsdelivr.net/npm/mathjax@3/es5/tex-svg.js''"
  by code_simp

lemma script_url_config:
  "script_url cached_fonts_options
     = Some ''https://cdn.jsdelivr.net/npm/mathjax@3/es5/tex-chtml.js''"
  by code_simp

text \<open>
  C3, as amended. Whatever the caller's options, the configuration the engine reads is
  the built-in one: \<open>init\<close> assigns the object literal and never merges the options into
  it; the options reach \<open>init\<close> only through the script's URL. The overlay itself is
  what the helper \<open>defaults\<close> computes, which \<open>init\<close> does not call: a key of the
  options keeps the caller's value, and any other key has the value of the defaults.
\<close>

theorem engine_configuration_builtin:
  "window_MathJax (math_init math query e) = mathjax_config
   \<and> math_init math query e =
       \<lparr>window_MathJax = mathjax_config,
        script = map_option (\<lambda>url. loadScript url (Some script_loaded) e) (script_url math)\<rparr>
   \<and> map_of (defaults options defaultOptions) k =
       (case map_of options k of Some v \<Rightarrow> Some v | None \<Rightarrow> map_of defaultOptions k)"
  by (simp add: math_init_def defaults_lookup)

text \<open>
  C3 as stated fails: the caller's options hold the key \<open>svg\<close>, and the configuration
  handed to the engine has the built-in value under that key, not the caller's.
\<close>

theorem engine_configuration_counterexample:
  "js_get cached_fonts_options ''svg'' = JObject [(''fontCache'', JString ''global'')]
   \<and> js_get (window_MathJax (math_init cached_fonts_options [] idle_engine)) ''svg''
       \<noteq> JObject [(''fontCache'', JString ''global'')]
   \<and> js_get (js_get (window_MathJax (math_init cached_fonts_options [] idle_engine)) ''svg'')
         ''fontCache'' = JString ''none''"
proof -
  have w: "window_MathJax (math_init cached_fonts_options [] idle_engine) = mathjax_config"
    by (simp add: math_init_def)
  have a: "js_get cached_fonts_options ''svg'' = JObject [(''fontCache'', JString ''global'')]"
    by code_simp
  have b: "js_get mathjax_config ''svg'' \<noteq> JObject [(''fontCache'', JString ''global'')]"
    by code_simp
  have c: "js_get (js_get mathjax_config ''svg'') ''fontCache'' = JString ''none''"
    by code_simp
  from a b c show ?thesis by (simp add: w)
qed

end
